theory Spec2Isabelle
  imports Main
begin

section \<open>Data model\<close>

text \<open>
  The repository keeps one struct per parking spot in a three-dimensional slice
  indexed by floor, row and column, the dimensions of the lot, and two Go maps
  from vehicle numbers to spot identifiers. Go's \<open>int\<close> is modelled by \<open>int\<close>;
  the only place where its 64-bit range matters is the integer scanner below,
  where the range check is written out.
\<close>

record ParkingSpot =
  Floor :: int
  Row :: int
  Column :: int
  VehicleType :: string
  IsActive :: bool
  IsOccupied :: bool
  VehicleNumber :: string

record InMemoryParkingRepository =
  floors :: int
  rows :: int
  columns :: int
  spots :: "ParkingSpot list list list"
  gates :: int
  vehicleMap :: "string \<rightharpoonup> string"
  vehicleHistory :: "string \<rightharpoonup> string"

text \<open>
  Go errors are strings built from the constants of package \<open>errors\<close>. Each
  distinct message shape is one constructor, carrying the values the message is
  formatted from. \<open>Panic\<close> stands for a run-time panic (index out of range,
  negative length passed to \<open>make\<close>).
\<close>

datatype error =
    ErrInvalidLocation
  | ErrInvalidSpotID
  | ErrInvalidSpotType
  | ErrInvalidVehicleType
  | ErrVehicleAlreadyParked string string
  | ErrVehicleNotParked string
  | ErrVehicleNotAtSpot string string string
  | ErrVehicleNotAtSpotGrid string int int int
  | ErrNoAvailableSpot
  | ErrEmptyVehicleNumber
  | ErrOccupiedReconfigure
  | ErrNeverParked string
  | ErrInitArgument string
  | Panic

definition Bicycle :: string where "Bicycle = ''Bicycle''"
definition Motorcycle :: string where "Motorcycle = ''Motorcycle''"
definition Automobile :: string where "Automobile = ''Automobile''"

section \<open>Spot identifiers: formatting and scanning\<close>

text \<open>
  \<open>fmt.Sprintf("%d-%d-%d", f, row, col)\<close>: each integer in decimal, a minus
  sign in front of a negative one.
\<close>

definition digitChar :: "nat \<Rightarrow> char" where
  "digitChar d = ''0123456789'' ! d"

fun fmtNat :: "nat \<Rightarrow> string" where
  "fmtNat n = (if n < 10 then [digitChar n] else fmtNat (n div 10) @ [digitChar (n mod 10)])"

declare fmtNat.simps [simp del]

definition fmtInt :: "int \<Rightarrow> string" where
  "fmtInt i = (if i < 0 then CHR ''-'' # fmtNat (nat (- i)) else fmtNat (nat i))"

definition Sprintf_d_d_d :: "int \<Rightarrow> int \<Rightarrow> int \<Rightarrow> string" where
  "Sprintf_d_d_d f row col = fmtInt f @ ''-'' @ fmtInt row @ ''-'' @ fmtInt col"

text \<open>
  \<open>fmt.Sscanf(spotID, "%d-%d-%d", &floor, &row, &column)\<close> of the Go standard
  library, on the bytes of the string. For each \<open>%d\<close> the scanner
  skips blanks (a newline is an error), accepts one optional sign, requires at
  least one decimal digit, takes all digits that follow and converts the token
  with \<open>strconv.ParseInt(tok, 10, 64)\<close>, which fails outside the range of a
  64-bit integer. A literal of the format must be the next input character.
  When the format is exhausted the scan is over: input that remains is not
  looked at. \<open>None\<close> is a non-nil error. The target variables are Go \<open>int\<close>s
  of 64 bits. The scanner of the library reads \<open>2^30\<close> runes at most; the
  model has no such limit, which strings of less than \<open>2^30\<close> bytes do not
  reach.

  The scanner reads the string rune by rune, decoding UTF-8. Its \<open>isSpace\<close>
  is true of the runes U+0009 to U+000D, U+0020, U+0085, U+00A0, U+1680, U+2000
  to U+200A, U+2028, U+2029, U+202F, U+205F and U+3000. \<open>spaceRunes\<close> lists the
  UTF-8 encodings of these runes, the newline U+000A left out, which
  \<open>SkipSpace\<close> treats before it asks \<open>isSpace\<close>; \<open>spaceWidth\<close> is the number of
  bytes of such a rune at the start of the input, and 0 when the input starts
  with anything else. The signs, the digits and the hyphen are one-byte runes,
  and a byte of a longer rune is none of them.
\<close>

definition spaceRunes :: "string list" where
  "spaceRunes =
     [[CHR 0x09], [CHR 0x0B], [CHR 0x0C], [CHR 0x0D], [CHR 0x20],
      [CHR 0xC2, CHR 0x85], [CHR 0xC2, CHR 0xA0],
      [CHR 0xE1, CHR 0x9A, CHR 0x80],
      [CHR 0xE2, CHR 0x80, CHR 0x80], [CHR 0xE2, CHR 0x80, CHR 0x81],
      [CHR 0xE2, CHR 0x80, CHR 0x82], [CHR 0xE2, CHR 0x80, CHR 0x83],
      [CHR 0xE2, CHR 0x80, CHR 0x84], [CHR 0xE2, CHR 0x80, CHR 0x85],
      [CHR 0xE2, CHR 0x80, CHR 0x86], [CHR 0xE2, CHR 0x80, CHR 0x87],
      [CHR 0xE2, CHR 0x80, CHR 0x88], [CHR 0xE2, CHR 0x80, CHR 0x89],
      [CHR 0xE2, CHR 0x80, CHR 0x8A],
      [CHR 0xE2, CHR 0x80, CHR 0xA8], [CHR 0xE2, CHR 0x80, CHR 0xA9],
      [CHR 0xE2, CHR 0x80, CHR 0xAF], [CHR 0xE2, CHR 0x81, CHR 0x9F],
      [CHR 0xE3, CHR 0x80, CHR 0x80]]"

definition spaceWidth :: "string \<Rightarrow> nat" where
  "spaceWidth s =
     (if take 1 s \<in> set spaceRunes then 1
      else if take 2 s \<in> set spaceRunes then 2
      else if take 3 s \<in> set spaceRunes then 3
      else 0)"

definition isDigit :: "char \<Rightarrow> bool" where
  "isDigit c = (c \<in> set ''0123456789'')"

function SkipSpace :: "string \<Rightarrow> string option" where
  "SkipSpace [] = Some []"
| "SkipSpace (c # cs) =
     (if c = CHR 0x0D \<and> (case cs of [] \<Rightarrow> False | d # _ \<Rightarrow> d = CHR 0x0A) then SkipSpace cs
      else if c = CHR 0x0A then None
      else if 0 < spaceWidth (c # cs) then SkipSpace (drop (spaceWidth (c # cs)) (c # cs))
      else Some (c # cs))"
  by pat_completeness auto
termination
  by (relation "measure length") auto

declare SkipSpace.simps [simp del]

definition acceptSign :: "string \<Rightarrow> string \<times> string" where
  "acceptSign s =
     (case s of [] \<Rightarrow> ([], [])
      | c # cs \<Rightarrow> if c = CHR ''+'' \<or> c = CHR ''-'' then ([c], cs) else ([], s))"

definition scanNumber :: "string \<Rightarrow> (string \<times> string) option" where
  "scanNumber s =
     (let tok = takeWhile isDigit s
      in if tok = [] then None else Some (tok, dropWhile isDigit s))"

definition digitVal :: "char \<Rightarrow> nat" where
  "digitVal c = of_char c - 48"

definition digitsValue :: "string \<Rightarrow> nat" where
  "digitsValue ds = foldl (\<lambda>n c. n * 10 + digitVal c) 0 ds"

definition ParseInt :: "string \<Rightarrow> int option" where
  "ParseInt s =
     (case s of
        [] \<Rightarrow> None
      | c # cs \<Rightarrow>
          (let neg = (c = CHR ''-'');
               ds = (if c = CHR ''+'' \<or> c = CHR ''-'' then cs else s);
               un = int (digitsValue ds)
           in if ds = [] \<or> \<not> list_all isDigit ds then None
              else if neg then (if un > 2 ^ 63 then None else Some (- un))
              else (if un \<ge> 2 ^ 63 then None else Some un)))"

definition scanInt :: "string \<Rightarrow> (int \<times> string) option" where
  "scanInt s =
     (case SkipSpace s of
        None \<Rightarrow> None
      | Some s1 \<Rightarrow>
          if s1 = [] then None
          else (case acceptSign s1 of
                  (sg, s2) \<Rightarrow>
                    (case scanNumber s2 of
                       None \<Rightarrow> None
                     | Some (tok, s3) \<Rightarrow>
                         (case ParseInt (sg @ tok) of
                            None \<Rightarrow> None
                          | Some i \<Rightarrow> Some (i, s3)))))"

definition matchLiteral :: "char \<Rightarrow> string \<Rightarrow> string option" where
  "matchLiteral c s = (case s of [] \<Rightarrow> None | d # ds \<Rightarrow> if d = c then Some ds else None)"

definition Sscanf_d_d_d :: "string \<Rightarrow> (int \<times> int \<times> int) option" where
  "Sscanf_d_d_d s =
     (case scanInt s of
        None \<Rightarrow> None
      | Some (a, s1) \<Rightarrow>
          (case matchLiteral CHR ''-'' s1 of
             None \<Rightarrow> None
           | Some s2 \<Rightarrow>
               (case scanInt s2 of
                  None \<Rightarrow> None
                | Some (b, s3) \<Rightarrow>
                    (case matchLiteral CHR ''-'' s3 of
                       None \<Rightarrow> None
                     | Some s4 \<Rightarrow>
                         (case scanInt s4 of
                            None \<Rightarrow> None
                          | Some (c, s5) \<Rightarrow> Some (a, b, c))))))"

section \<open>The repository\<close>

definition NewParkingRepository :: InMemoryParkingRepository where
  "NewParkingRepository =
     \<lparr>floors = 0, rows = 0, columns = 0, spots = [], gates = 0,
      vehicleMap = Map.empty, vehicleHistory = Map.empty\<rparr>"

definition newSpot :: "int \<Rightarrow> int \<Rightarrow> int \<Rightarrow> ParkingSpot" where
  "newSpot f row col =
     \<lparr>Floor = f, Row = row, Column = col, VehicleType = [], IsActive = False,
      IsOccupied = False, VehicleNumber = []\<rparr>"

definition makeGrid :: "int \<Rightarrow> int \<Rightarrow> int \<Rightarrow> ParkingSpot list list list" where
  "makeGrid fl rw cl =
     map (\<lambda>f. map (\<lambda>row. map (\<lambda>col. newSpot (int f) (int row) (int col))
                              [0..<nat cl])
                  [0..<nat rw])
         [0..<nat fl]"

text \<open>
  \<open>make([]T, n)\<close> panics when \<open>n\<close> is negative or when \<open>n\<close> elements of the size
  of \<open>T\<close> are more than the runtime allocates at once (\<open>maxAlloc\<close>, \<open>2^48\<close> bytes
  on a 64-bit platform). A slice is 24 bytes, a pointer 8. Running out of
  memory below that bound ends the process and is not part of the model.
\<close>

definition maxAlloc :: int where
  "maxAlloc = 2 ^ 48"

definition makePanics :: "int \<Rightarrow> int \<Rightarrow> bool" where
  "makePanics n elemSize = (n < 0 \<or> n * elemSize > maxAlloc)"

text \<open>
  \<open>InitializeParkingLot\<close> stores the dimensions and allocates a fresh grid; the
  two vehicle maps are not touched. The outer slice is stored in \<open>r.spots\<close>
  before the inner ones are made, so a panic of an inner \<open>make\<close> (in the first
  round of its loop) leaves the grid that has been built so far: all floors
  \<open>nil\<close>, or the first floor with all its rows \<open>nil\<close>.
\<close>

definition Repo_InitializeParkingLot ::
  "InMemoryParkingRepository \<Rightarrow> int \<Rightarrow> int \<Rightarrow> int \<Rightarrow> int
     \<Rightarrow> error option \<times> InMemoryParkingRepository" where
  "Repo_InitializeParkingLot r fl rw cl g =
     (let r1 = r\<lparr>floors := fl, rows := rw, columns := cl, gates := g\<rparr>
      in if makePanics fl 24 then (Some Panic, r1)
         else if 0 < fl \<and> makePanics rw 24
         then (Some Panic, r1\<lparr>spots := replicate (nat fl) []\<rparr>)
         else if 0 < fl \<and> 0 < rw \<and> makePanics cl 8
         then (Some Panic,
               r1\<lparr>spots := replicate (nat rw) [] # replicate (nat fl - 1) []\<rparr>)
         else (None, r1\<lparr>spots := makeGrid fl rw cl\<rparr>))"

definition isValidLocation :: "InMemoryParkingRepository \<Rightarrow> int \<Rightarrow> int \<Rightarrow> int \<Rightarrow> bool" where
  "isValidLocation r floor row column =
     (floor \<ge> 0 \<and> floor < floors r \<and> row \<ge> 0 \<and> row < rows r \<and>
      column \<ge> 0 \<and> column < columns r)"

text \<open>
  Indexing a slice with a Go \<open>int\<close>: an index outside the slice panics, which
  is \<open>None\<close> here. \<open>getSpot\<close> is \<open>r.spots[floor][row][column]\<close>.
\<close>

definition sliceIndex :: "'a list \<Rightarrow> int \<Rightarrow> 'a option" where
  "sliceIndex xs i = (if 0 \<le> i \<and> nat i < length xs then Some (xs ! nat i) else None)"

definition getSpot ::
  "InMemoryParkingRepository \<Rightarrow> int \<Rightarrow> int \<Rightarrow> int \<Rightarrow> ParkingSpot option" where
  "getSpot r floor row column =
     (case sliceIndex (spots r) floor of
        None \<Rightarrow> None
      | Some fl \<Rightarrow>
          (case sliceIndex fl row of
             None \<Rightarrow> None
           | Some rw \<Rightarrow> sliceIndex rw column))"

text \<open>Writing through the pointer stored at \<open>r.spots[floor][row][column]\<close>.\<close>

definition setSpot ::
  "InMemoryParkingRepository \<Rightarrow> int \<Rightarrow> int \<Rightarrow> int \<Rightarrow> ParkingSpot
     \<Rightarrow> InMemoryParkingRepository" where
  "setSpot r floor row column sp =
     r\<lparr>spots := (spots r)[nat floor :=
          (spots r ! nat floor)[nat row :=
             (spots r ! nat floor ! nat row)[nat column := sp]]]\<rparr>"

definition Repo_ConfigureSpot ::
  "InMemoryParkingRepository \<Rightarrow> int \<Rightarrow> int \<Rightarrow> int \<Rightarrow> string \<Rightarrow> bool
     \<Rightarrow> error option \<times> InMemoryParkingRepository" where
  "Repo_ConfigureSpot r floor row column vehicleType isActive =
     (if \<not> isValidLocation r floor row column then (Some ErrInvalidLocation, r)
      else (case getSpot r floor row column of
              None \<Rightarrow> (Some Panic, r)
            | Some spot \<Rightarrow>
                (None, setSpot r floor row column
                         (spot\<lparr>VehicleType := vehicleType, IsActive := isActive\<rparr>))))"

definition IsValidLocation :: "InMemoryParkingRepository \<Rightarrow> int \<Rightarrow> int \<Rightarrow> int \<Rightarrow> bool" where
  "IsValidLocation r floor row column = isValidLocation r floor row column"

definition IsSpotOccupied ::
  "InMemoryParkingRepository \<Rightarrow> int \<Rightarrow> int \<Rightarrow> int \<Rightarrow> error + bool" where
  "IsSpotOccupied r floor row column =
     (if \<not> isValidLocation r floor row column then Inl ErrInvalidLocation
      else (case getSpot r floor row column of
              None \<Rightarrow> Inl Panic
            | Some spot \<Rightarrow> Inr (IsOccupied spot)))"

text \<open>
  The three nested loops of \<open>FindAvailableSpot\<close>, innermost first. A loop
  returns \<open>Inr (Some id)\<close> when it returns from the function with a spot,
  \<open>Inr None\<close> when it runs to its end.
\<close>

definition available :: "ParkingSpot \<Rightarrow> string \<Rightarrow> bool" where
  "available spot vehicleType =
     (IsActive spot \<and> VehicleType spot = vehicleType \<and> \<not> IsOccupied spot)"

function findCol ::
  "InMemoryParkingRepository \<Rightarrow> string \<Rightarrow> int \<Rightarrow> int \<Rightarrow> int \<Rightarrow> error + string option" where
  "findCol r vehicleType f row col =
     (if col < columns r then
        (case getSpot r f row col of
           None \<Rightarrow> Inl Panic
         | Some spot \<Rightarrow>
             if available spot vehicleType then Inr (Some (Sprintf_d_d_d f row col))
             else findCol r vehicleType f row (col + 1))
      else Inr None)"
  by pat_completeness auto
termination
  by (relation "measure (\<lambda>(r, vehicleType, f, row, col). nat (columns r - col))") auto

function findRow ::
  "InMemoryParkingRepository \<Rightarrow> string \<Rightarrow> int \<Rightarrow> int \<Rightarrow> error + string option" where
  "findRow r vehicleType f row =
     (if row < rows r then
        (case findCol r vehicleType f row 0 of
           Inl e \<Rightarrow> Inl e
         | Inr (Some sid) \<Rightarrow> Inr (Some sid)
         | Inr None \<Rightarrow> findRow r vehicleType f (row + 1))
      else Inr None)"
  by pat_completeness auto
termination
  by (relation "measure (\<lambda>(r, vehicleType, f, row). nat (rows r - row))") auto

function findFloor ::
  "InMemoryParkingRepository \<Rightarrow> string \<Rightarrow> int \<Rightarrow> error + string option" where
  "findFloor r vehicleType f =
     (if f < floors r then
        (case findRow r vehicleType f 0 of
           Inl e \<Rightarrow> Inl e
         | Inr (Some sid) \<Rightarrow> Inr (Some sid)
         | Inr None \<Rightarrow> findFloor r vehicleType (f + 1))
      else Inr None)"
  by pat_completeness auto
termination
  by (relation "measure (\<lambda>(r, vehicleType, f). nat (floors r - f))") auto

declare findCol.simps [simp del] findRow.simps [simp del] findFloor.simps [simp del]

definition FindAvailableSpot :: "InMemoryParkingRepository \<Rightarrow> string \<Rightarrow> error + string" where
  "FindAvailableSpot r vehicleType =
     (case findFloor r vehicleType 0 of
        Inl e \<Rightarrow> Inl e
      | Inr (Some sid) \<Rightarrow> Inr sid
      | Inr None \<Rightarrow> Inl ErrNoAvailableSpot)"

definition parseSpotID ::
  "InMemoryParkingRepository \<Rightarrow> string \<Rightarrow> error + (int \<times> int \<times> int)" where
  "parseSpotID r spotID =
     (case Sscanf_d_d_d spotID of
        None \<Rightarrow> Inl ErrInvalidSpotID
      | Some (floor, row, column) \<Rightarrow>
          if \<not> isValidLocation r floor row column then Inl ErrInvalidLocation
          else Inr (floor, row, column))"

definition ParseSpotID ::
  "InMemoryParkingRepository \<Rightarrow> string \<Rightarrow> error + (int \<times> int \<times> int)" where
  "ParseSpotID r spotID = parseSpotID r spotID"

definition ParkVehicle ::
  "InMemoryParkingRepository \<Rightarrow> string \<Rightarrow> string
     \<Rightarrow> error option \<times> InMemoryParkingRepository" where
  "ParkVehicle r spotID vehicleNumber =
     (case parseSpotID r spotID of
        Inl err \<Rightarrow> (Some err, r)
      | Inr (floor, row, col) \<Rightarrow>
          (case getSpot r floor row col of
             None \<Rightarrow> (Some Panic, r)
           | Some spot \<Rightarrow>
               (None,
                (setSpot r floor row col
                   (spot\<lparr>IsOccupied := True, VehicleNumber := vehicleNumber\<rparr>))
                \<lparr>vehicleMap := (vehicleMap r)(vehicleNumber \<mapsto> spotID)\<rparr>)))"

definition UnparkVehicle ::
  "InMemoryParkingRepository \<Rightarrow> int \<Rightarrow> int \<Rightarrow> int \<Rightarrow> string
     \<Rightarrow> error option \<times> InMemoryParkingRepository" where
  "UnparkVehicle r floor row column vehicleNumber =
     (if \<not> isValidLocation r floor row column then (Some ErrInvalidLocation, r)
      else (case getSpot r floor row column of
              None \<Rightarrow> (Some Panic, r)
            | Some spot \<Rightarrow>
                if \<not> IsOccupied spot \<or> VehicleNumber spot \<noteq> vehicleNumber
                then (Some (ErrVehicleNotAtSpotGrid vehicleNumber floor row column), r)
                else (None,
                      (setSpot r floor row column
                         (spot\<lparr>IsOccupied := False, VehicleNumber := []\<rparr>))
                      \<lparr>vehicleHistory :=
                         (vehicleHistory r)(vehicleNumber \<mapsto> Sprintf_d_d_d floor row column),
                       vehicleMap := (vehicleMap r)(vehicleNumber := None)\<rparr>)))"

text \<open>
  \<open>IsVehicleParked\<close> returns whether the key is in the current map and the value
  found (the empty string when there is none); its error result is always nil
  and is left out.
\<close>

definition IsVehicleParked :: "InMemoryParkingRepository \<Rightarrow> string \<Rightarrow> bool \<times> string" where
  "IsVehicleParked r vehicleNumber =
     (case vehicleMap r vehicleNumber of
        None \<Rightarrow> (False, [])
      | Some spotID \<Rightarrow> (True, spotID))"

definition Repo_SearchVehicle ::
  "InMemoryParkingRepository \<Rightarrow> string \<Rightarrow> error + (string \<times> bool)" where
  "Repo_SearchVehicle r vehicleNumber =
     (case vehicleMap r vehicleNumber of
        Some spotID \<Rightarrow> Inr (spotID, True)
      | None \<Rightarrow>
          (case vehicleHistory r vehicleNumber of
             Some lastSpotID \<Rightarrow> Inr (lastSpotID, False)
           | None \<Rightarrow> Inl (ErrNeverParked vehicleNumber)))"

section \<open>The parking service\<close>

definition validateVehicleType :: "string \<Rightarrow> error option" where
  "validateVehicleType vehicleType =
     (if vehicleType = Bicycle \<or> vehicleType = Motorcycle \<or> vehicleType = Automobile
      then None else Some ErrInvalidVehicleType)"

definition validateVehicleNumber :: "string \<Rightarrow> error option" where
  "validateVehicleNumber vehicleNumber =
     (if vehicleNumber = [] then Some ErrEmptyVehicleNumber else None)"

definition Service_InitializeParkingLot ::
  "InMemoryParkingRepository \<Rightarrow> int \<Rightarrow> int \<Rightarrow> int \<Rightarrow> int
     \<Rightarrow> error option \<times> InMemoryParkingRepository" where
  "Service_InitializeParkingLot r fl rw cl g =
     (if fl < 1 \<or> fl > 8 then (Some (ErrInitArgument ''floors''), r)
      else if rw < 1 \<or> rw > 1000 then (Some (ErrInitArgument ''rows''), r)
      else if cl < 1 \<or> cl > 1000 then (Some (ErrInitArgument ''columns''), r)
      else if g < 1 then (Some (ErrInitArgument ''gates''), r)
      else Repo_InitializeParkingLot r fl rw cl g)"

definition spotTypeOf :: "string \<Rightarrow> (string \<times> bool) option" where
  "spotTypeOf spotType =
     (if spotType = ''B-1'' then Some (Bicycle, True)
      else if spotType = ''M-1'' then Some (Motorcycle, True)
      else if spotType = ''A-1'' then Some (Automobile, True)
      else if spotType = ''X-0'' then Some ([], False)
      else None)"

definition Service_ConfigureSpot ::
  "InMemoryParkingRepository \<Rightarrow> int \<Rightarrow> int \<Rightarrow> int \<Rightarrow> string
     \<Rightarrow> error option \<times> InMemoryParkingRepository" where
  "Service_ConfigureSpot r floor row column spotType =
     (if \<not> IsValidLocation r floor row column then (Some ErrInvalidLocation, r)
      else (case IsSpotOccupied r floor row column of
              Inl err \<Rightarrow> (Some err, r)
            | Inr isOccupied \<Rightarrow>
                if isOccupied then (Some ErrOccupiedReconfigure, r)
                else (case spotTypeOf spotType of
                        None \<Rightarrow> (Some ErrInvalidSpotType, r)
                      | Some (vehicleType, isActive) \<Rightarrow>
                          Repo_ConfigureSpot r floor row column vehicleType isActive)))"

definition Park ::
  "InMemoryParkingRepository \<Rightarrow> string \<Rightarrow> string
     \<Rightarrow> (error + string) \<times> InMemoryParkingRepository" where
  "Park r vehicleType vehicleNumber =
     (case validateVehicleType vehicleType of
        Some err \<Rightarrow> (Inl err, r)
      | None \<Rightarrow>
          (case validateVehicleNumber vehicleNumber of
             Some err \<Rightarrow> (Inl err, r)
           | None \<Rightarrow>
               (case IsVehicleParked r vehicleNumber of
                  (isParked, currentSpotID) \<Rightarrow>
                    if isParked
                    then (Inl (ErrVehicleAlreadyParked vehicleNumber currentSpotID), r)
                    else (case FindAvailableSpot r vehicleType of
                            Inl _ \<Rightarrow> (Inl ErrNoAvailableSpot, r)
                          | Inr spotID \<Rightarrow>
                              (case ParkVehicle r spotID vehicleNumber of
                                 (Some err, r') \<Rightarrow> (Inl err, r')
                               | (None, r') \<Rightarrow> (Inr spotID, r'))))))"

definition Unpark ::
  "InMemoryParkingRepository \<Rightarrow> string \<Rightarrow> string
     \<Rightarrow> error option \<times> InMemoryParkingRepository" where
  "Unpark r spotID vehicleNumber =
     (case validateVehicleNumber vehicleNumber of
        Some err \<Rightarrow> (Some err, r)
      | None \<Rightarrow>
          (case IsVehicleParked r vehicleNumber of
             (isParked, currentSpotID) \<Rightarrow>
               if \<not> isParked then (Some (ErrVehicleNotParked vehicleNumber), r)
               else if currentSpotID \<noteq> spotID
               then (Some (ErrVehicleNotAtSpot vehicleNumber spotID currentSpotID), r)
               else (case ParseSpotID r spotID of
                       Inl err \<Rightarrow> (Some err, r)
                     | Inr (floor, row, column) \<Rightarrow>
                         UnparkVehicle r floor row column vehicleNumber)))"

definition Service_SearchVehicle ::
  "InMemoryParkingRepository \<Rightarrow> string \<Rightarrow> error + (string \<times> bool)" where
  "Service_SearchVehicle r vehicleNumber =
     (case validateVehicleNumber vehicleNumber of
        Some err \<Rightarrow> Inl err
      | None \<Rightarrow> Repo_SearchVehicle r vehicleNumber)"

section \<open>Concurrent callers of \<open>Park\<close>\<close>

text \<open>
  Every repository method holds the repository's mutex from its first to its
  last statement, so each call is one indivisible step on the shared state.
  \<open>ParkingService.Park\<close> holds no lock of its own: it makes three repository
  calls in a row (\<open>IsVehicleParked\<close>, \<open>FindAvailableSpot\<close>, \<open>ParkVehicle\<close>), and a
  call of another goroutine can run between any two of them. A goroutine inside
  \<open>Park\<close> is therefore at one of the points below; \<open>parkStep\<close> runs it up to and
  including its next repository call.
\<close>

datatype parkPoint =
    AtIsVehicleParked
  | AtFindAvailableSpot
  | AtParkVehicle string
  | Returned "error + string"

definition parkStep ::
  "InMemoryParkingRepository \<Rightarrow> string \<Rightarrow> string \<Rightarrow> parkPoint
     \<Rightarrow> parkPoint \<times> InMemoryParkingRepository" where
  "parkStep r vehicleType vehicleNumber pt =
     (case pt of
        AtIsVehicleParked \<Rightarrow>
          (case validateVehicleType vehicleType of
             Some err \<Rightarrow> (Returned (Inl err), r)
           | None \<Rightarrow>
               (case validateVehicleNumber vehicleNumber of
                  Some err \<Rightarrow> (Returned (Inl err), r)
                | None \<Rightarrow>
                    (case IsVehicleParked r vehicleNumber of
                       (isParked, currentSpotID) \<Rightarrow>
                         if isParked
                         then (Returned (Inl (ErrVehicleAlreadyParked vehicleNumber currentSpotID)), r)
                         else (AtFindAvailableSpot, r))))
      | AtFindAvailableSpot \<Rightarrow>
          (case FindAvailableSpot r vehicleType of
             Inl _ \<Rightarrow> (Returned (Inl ErrNoAvailableSpot), r)
           | Inr spotID \<Rightarrow> (AtParkVehicle spotID, r))
      | AtParkVehicle spotID \<Rightarrow>
          (case ParkVehicle r spotID vehicleNumber of
             (Some err, r') \<Rightarrow> (Returned (Inl err), r')
           | (None, r') \<Rightarrow> (Returned (Inr spotID), r'))
      | Returned res \<Rightarrow> (Returned res, r))"

text \<open>One goroutine running alone: three steps from the entry of \<open>Park\<close>.\<close>

definition parkAlone ::
  "InMemoryParkingRepository \<Rightarrow> string \<Rightarrow> string \<Rightarrow> parkPoint \<times> InMemoryParkingRepository" where
  "parkAlone r vehicleType vehicleNumber =
     (case parkStep r vehicleType vehicleNumber AtIsVehicleParked of
        (p1, r1) \<Rightarrow>
          (case parkStep r1 vehicleType vehicleNumber p1 of
             (p2, r2) \<Rightarrow> parkStep r2 vehicleType vehicleNumber p2))"

text \<open>
  Two goroutines calling \<open>Park\<close> with the same arguments; a schedule says which
  of them makes the next repository call (\<open>True\<close> for the first).
\<close>

fun runTwoParks ::
  "string \<Rightarrow> string \<Rightarrow> bool list
     \<Rightarrow> parkPoint \<times> parkPoint \<times> InMemoryParkingRepository
     \<Rightarrow> parkPoint \<times> parkPoint \<times> InMemoryParkingRepository" where
  "runTwoParks vehicleType vehicleNumber [] st = st"
| "runTwoParks vehicleType vehicleNumber (first # sched) (p1, p2, r) =
     (if first
      then (case parkStep r vehicleType vehicleNumber p1 of
              (p1', r') \<Rightarrow> runTwoParks vehicleType vehicleNumber sched (p1', p2, r'))
      else (case parkStep r vehicleType vehicleNumber p2 of
              (p2', r') \<Rightarrow> runTwoParks vehicleType vehicleNumber sched (p1, p2', r')))"

text \<open>
  The same for two goroutines that call \<open>Park\<close> each with its own vehicle type
  and vehicle number.
\<close>

fun runParkPair ::
  "string \<times> string \<Rightarrow> string \<times> string \<Rightarrow> bool list
     \<Rightarrow> parkPoint \<times> parkPoint \<times> InMemoryParkingRepository
     \<Rightarrow> parkPoint \<times> parkPoint \<times> InMemoryParkingRepository" where
  "runParkPair call1 call2 [] st = st"
| "runParkPair call1 call2 (first # sched) (p1, p2, r) =
     (if first
      then (case parkStep r (fst call1) (snd call1) p1 of
              (p1', r') \<Rightarrow> runParkPair call1 call2 sched (p1', p2, r'))
      else (case parkStep r (fst call2) (snd call2) p2 of
              (p2', r') \<Rightarrow> runParkPair call1 call2 sched (p1, p2', r')))"

section \<open>Predicates of the specification\<close>

text \<open>
  The grid has the shape its dimensions say, and the dimensions are values of
  Go's 64-bit \<open>int\<close>. \<open>InitializeParkingLot\<close> is the only writer of the
  dimensions and of the outer slices, so every repository has this shape.
\<close>

definition wellFormed :: "InMemoryParkingRepository \<Rightarrow> bool" where
  "wellFormed r =
     (floors r < 2 ^ 63 \<and> rows r < 2 ^ 63 \<and> columns r < 2 ^ 63 \<and>
      length (spots r) = nat (floors r) \<and>
      list_all (\<lambda>fl. length fl = nat (rows r) \<and>
                     list_all (\<lambda>rw. length rw = nat (columns r)) fl) (spots r))"

text \<open>A spot a vehicle of the given type can be allocated: in bounds, active, of that type, free.\<close>

definition availableAt ::
  "InMemoryParkingRepository \<Rightarrow> string \<Rightarrow> int \<Rightarrow> int \<Rightarrow> int \<Rightarrow> bool" where
  "availableAt r vehicleType f row col =
     (isValidLocation r f row col \<and>
      (case getSpot r f row col of None \<Rightarrow> False | Some spot \<Rightarrow> available spot vehicleType))"

text \<open>The vehicle number stored at an occupied spot.\<close>

definition occupantAt ::
  "InMemoryParkingRepository \<Rightarrow> int \<Rightarrow> int \<Rightarrow> int \<Rightarrow> string option" where
  "occupantAt r f row col =
     (if isValidLocation r f row col then
        (case getSpot r f row col of
           None \<Rightarrow> None
         | Some spot \<Rightarrow> if IsOccupied spot then Some (VehicleNumber spot) else None)
      else None)"

definition lexLe :: "int \<times> int \<times> int \<Rightarrow> int \<times> int \<times> int \<Rightarrow> bool" where
  "lexLe a b =
     (case a of (f, row, col) \<Rightarrow>
        (case b of (f', row', col') \<Rightarrow>
           f < f' \<or> (f = f' \<and> (row < row' \<or> (row = row' \<and> col \<le> col')))))"

definition sameGrid :: "InMemoryParkingRepository \<Rightarrow> InMemoryParkingRepository \<Rightarrow> bool" where
  "sameGrid r r' =
     (floors r' = floors r \<and> rows r' = rows r \<and> columns r' = columns r \<and> spots r' = spots r)"

definition spotInvariant :: "ParkingSpot \<Rightarrow> bool" where
  "spotInvariant spot =
     ((IsOccupied spot \<longleftrightarrow> VehicleNumber spot \<noteq> []) \<and> (\<not> IsActive spot \<longrightarrow> \<not> IsOccupied spot))"

text \<open>
  The invariant of a lot in service: the grid has its shape, every spot of the
  grid satisfies the spot invariant, and the current map holds exactly the
  pairs of a vehicle and the identifier of the spot it occupies.
\<close>

definition gridInvariant :: "InMemoryParkingRepository \<Rightarrow> bool" where
  "gridInvariant r =
     (\<forall>f row col spot. getSpot r f row col = Some spot \<longrightarrow> spotInvariant spot)"

definition mapConsistent :: "InMemoryParkingRepository \<Rightarrow> bool" where
  "mapConsistent r =
     (\<forall>v s. vehicleMap r v = Some s \<longleftrightarrow>
        (\<exists>f row col. s = Sprintf_d_d_d f row col \<and> occupantAt r f row col = Some v))"

definition lotInvariant :: "InMemoryParkingRepository \<Rightarrow> bool" where
  "lotInvariant r = (wellFormed r \<and> gridInvariant r \<and> mapConsistent r)"

text \<open>
  The states of a lot in service: the lot is created once by a successful
  \<open>InitializeParkingLot\<close> of the service on a new repository, and from then on
  changes through \<open>Park\<close>, \<open>Unpark\<close> and \<open>ConfigureSpot\<close> of the service, one call
  after the other, whether the call succeeds or fails. The queries do not
  change the repository.
\<close>

inductive reachable :: "InMemoryParkingRepository \<Rightarrow> bool" where
  initialized:
    "Service_InitializeParkingLot NewParkingRepository fl rw cl g = (None, r) \<Longrightarrow> reachable r"
| parked:
    "reachable r \<Longrightarrow> Park r vehicleType vehicleNumber = (res, r') \<Longrightarrow> reachable r'"
| unparked:
    "reachable r \<Longrightarrow> Unpark r spotID vehicleNumber = (err, r') \<Longrightarrow> reachable r'"
| configured:
    "reachable r \<Longrightarrow> Service_ConfigureSpot r floor row column spotType = (err, r')
       \<Longrightarrow> reachable r'"

text \<open>The text after a run of digits does not go on with a digit.\<close>

definition noDigitAhead :: "string \<Rightarrow> bool" where
  "noDigitAhead s = (case s of [] \<Rightarrow> True | c # _ \<Rightarrow> \<not> isDigit c)"

text \<open>
  The wire format as the specification words it: exactly three non-empty runs of
  decimal digits, separated by single hyphens, and nothing else.
\<close>

definition exactPattern :: "string \<Rightarrow> bool" where
  "exactPattern s =
     (takeWhile isDigit s \<noteq> [] \<and>
      (case dropWhile isDigit s of
         [] \<Rightarrow> False
       | c # s1 \<Rightarrow>
           c = CHR ''-'' \<and> takeWhile isDigit s1 \<noteq> [] \<and>
           (case dropWhile isDigit s1 of
              [] \<Rightarrow> False
            | c' # s2 \<Rightarrow> c' = CHR ''-'' \<and> s2 \<noteq> [] \<and> list_all isDigit s2)))"

text \<open>
  What \<open>fmt.Sscanf\<close> takes for one \<open>%d\<close>, said as a grammar: a run of blanks
  (space runes other than the newline), then a token made of an optional sign
  and one or more decimal digits whose value is a 64-bit integer, and after the
  token no further digit. \<open>beginsWithPattern\<close> holds of a string that begins
  with three such fields, the first two each followed by a hyphen; what comes
  after the third field is free.
\<close>

inductive blanks :: "string \<Rightarrow> bool" where
  none: "blanks []"
| more: "w \<in> set spaceRunes \<Longrightarrow> blanks b \<Longrightarrow> blanks (w @ b)"

definition intToken :: "string \<Rightarrow> int \<Rightarrow> bool" where
  "intToken t i =
     (\<exists>g d. t = g @ d \<and> (g = [] \<or> g = ''+'' \<or> g = ''-'') \<and>
            d \<noteq> [] \<and> list_all isDigit d \<and>
            i = (if g = ''-'' then - int (digitsValue d) else int (digitsValue d)) \<and>
            - (2 ^ 63) \<le> i \<and> i < 2 ^ 63)"

definition intField :: "string \<Rightarrow> int \<Rightarrow> string \<Rightarrow> bool" where
  "intField s i rest =
     (\<exists>b t. s = b @ t @ rest \<and> blanks b \<and> intToken t i \<and> noDigitAhead rest)"

definition beginsWithPattern :: "string \<Rightarrow> int \<Rightarrow> int \<Rightarrow> int \<Rightarrow> bool" where
  "beginsWithPattern s a b c =
     (\<exists>s1 s2 rest. intField s a (CHR ''-'' # s1) \<and> intField s1 b (CHR ''-'' # s2) \<and>
                   intField s2 c rest)"

section \<open>A small lot\<close>

text \<open>
  One floor, one row, two columns, one gate, both spots configured for bicycles:
  the lot of the specification's scenario, empty, and with \<open>BC1\<close> parked.
\<close>

definition bicycleSpot :: "int \<Rightarrow> bool \<Rightarrow> string \<Rightarrow> ParkingSpot" where
  "bicycleSpot col occ vn =
     \<lparr>Floor = 0, Row = 0, Column = col, VehicleType = ''Bicycle'', IsActive = True,
      IsOccupied = occ, VehicleNumber = vn\<rparr>"

definition smallLot :: InMemoryParkingRepository where
  "smallLot =
     \<lparr>floors = 1, rows = 1, columns = 2,
      spots = [[[bicycleSpot 0 False [], bicycleSpot 1 False []]]], gates = 1,
      vehicleMap = Map.empty, vehicleHistory = Map.empty\<rparr>"

definition smallLotParked :: InMemoryParkingRepository where
  "smallLotParked =
     \<lparr>floors = 1, rows = 1, columns = 2,
      spots = [[[bicycleSpot 0 True ''BC1'', bicycleSpot 1 False []]]], gates = 1,
      vehicleMap = [''BC1'' \<mapsto> ''0-0-0''], vehicleHistory = Map.empty\<rparr>"

text \<open>
  Two states that interleaved calls of \<open>Park\<close> leave behind on the small lot:
  \<open>BC1\<close> in both spots, and \<open>BC1\<close> and \<open>BC2\<close> both sent to the first spot.
\<close>

definition parkedTwice :: InMemoryParkingRepository where
  "parkedTwice =
     \<lparr>floors = 1, rows = 1, columns = 2,
      spots = [[[bicycleSpot 0 True ''BC1'', bicycleSpot 1 True ''BC1'']]], gates = 1,
      vehicleMap = [''BC1'' \<mapsto> ''0-0-1''], vehicleHistory = Map.empty\<rparr>"

definition sharedSpot :: InMemoryParkingRepository where
  "sharedSpot =
     \<lparr>floors = 1, rows = 1, columns = 2,
      spots = [[[bicycleSpot 0 True ''BC2'', bicycleSpot 1 False []]]], gates = 1,
      vehicleMap = [''BC1'' \<mapsto> ''0-0-0'', ''BC2'' \<mapsto> ''0-0-0''], vehicleHistory = Map.empty\<rparr>"

section \<open>Formatting and scanning spot identifiers\<close>

lemma digitChar_props:
  assumes "d < 10"
  shows "isDigit (digitChar d)" and "digitVal (digitChar d) = d"
proof -
  from assms have "d \<in> {0,1,2,3,4,5,6,7,8,9}" by auto
  then show "isDigit (digitChar d)" and "digitVal (digitChar d) = d"
    by (auto simp: digitChar_def isDigit_def digitVal_def)
qed

lemma isDigit_not_special:
  "isDigit c \<Longrightarrow> c \<noteq> CHR 0x0A \<and> c \<noteq> CHR 0x0D \<and> c \<noteq> CHR ''+'' \<and> c \<noteq> CHR ''-''"
  by (auto simp: isDigit_def)

lemma spaceRunes_first:
  assumes "w \<in> set spaceRunes"
  shows "w \<noteq> [] \<and> \<not> isDigit (hd w) \<and> hd w \<noteq> CHR ''+'' \<and> hd w \<noteq> CHR ''-'' \<and> hd w \<noteq> CHR 0x0A"
  using assms by (auto simp: spaceRunes_def isDigit_def)

lemma spaceWidth_token:
  assumes "isDigit c \<or> c = CHR ''+'' \<or> c = CHR ''-''"
  shows "spaceWidth (c # cs) = 0"
proof -
  have "take (Suc n) (c # cs) \<notin> set spaceRunes" for n
  proof
    assume "take (Suc n) (c # cs) \<in> set spaceRunes"
    from spaceRunes_first [OF this] assms show False by auto
  qed
  from this [of 0] this [of 1] this [of 2] show ?thesis
    by (simp add: spaceWidth_def numeral_2_eq_2 numeral_3_eq_3)
qed

lemma fmtNat_digits: "list_all isDigit (fmtNat n)"
proof (induction n rule: fmtNat.induct)
  case (1 n)
  show ?case
  proof (cases "n < 10")
    case True
    then show ?thesis by (simp add: fmtNat.simps [of n] digitChar_props)
  next
    case False
    with 1 show ?thesis by (simp add: fmtNat.simps [of n] digitChar_props)
  qed
qed

lemma fmtNat_nonempty: "fmtNat n \<noteq> []"
  by (simp add: fmtNat.simps [of n])

lemma digitsValue_snoc: "digitsValue (ds @ [c]) = digitsValue ds * 10 + digitVal c"
  by (simp add: digitsValue_def)

lemma digitsValue_fmtNat: "digitsValue (fmtNat n) = n"
proof (induction n rule: fmtNat.induct)
  case (1 n)
  show ?case
  proof (cases "n < 10")
    case True
    then show ?thesis by (simp add: fmtNat.simps [of n] digitChar_props digitsValue_def)
  next
    case False
    with 1 show ?thesis
      by (simp add: fmtNat.simps [of n] digitsValue_snoc digitChar_props)
  qed
qed

lemma takeWhile_digits:
  "list_all isDigit ds \<Longrightarrow> noDigitAhead rest \<Longrightarrow>
     takeWhile isDigit (ds @ rest) = ds \<and> dropWhile isDigit (ds @ rest) = rest"
  by (induction ds) (auto simp: noDigitAhead_def split: list.splits)

lemma scanNumber_digits:
  "ds \<noteq> [] \<Longrightarrow> list_all isDigit ds \<Longrightarrow> noDigitAhead rest \<Longrightarrow>
     scanNumber (ds @ rest) = Some (ds, rest)"
  by (simp add: scanNumber_def takeWhile_digits)

lemma SkipSpace_digit: "isDigit c \<Longrightarrow> SkipSpace (c # cs) = Some (c # cs)"
  using isDigit_not_special [of c] spaceWidth_token [of c cs] by (simp add: SkipSpace.simps)

lemma scanInt_digits:
  assumes "ds \<noteq> []" "list_all isDigit ds" "noDigitAhead rest" "digitsValue ds < 2 ^ 63"
  shows "scanInt (ds @ rest) = Some (int (digitsValue ds), rest)"
proof -
  from assms(1) obtain c cs where ds: "ds = c # cs" by (cases ds) auto
  with assms(2) have c: "isDigit c" by simp
  have sk: "SkipSpace (ds @ rest) = Some (ds @ rest)"
    using SkipSpace_digit [OF c, of "cs @ rest"] ds by simp
  have sg: "acceptSign (ds @ rest) = ([], ds @ rest)"
    using isDigit_not_special [OF c] ds by (simp add: acceptSign_def)
  have pi: "ParseInt ds = Some (int (digitsValue ds))"
    using isDigit_not_special [OF c] assms(2,4) ds
    by (simp add: ParseInt_def Let_def)
  show ?thesis
    using sk sg pi assms(1) scanNumber_digits [OF assms(1-3)]
    by (simp add: scanInt_def)
qed

lemma noDigitAhead_dash: "noDigitAhead (CHR ''-'' # s)"
  by (simp add: noDigitAhead_def isDigit_def)

lemma Sscanf_digits:
  assumes "d1 \<noteq> []" "list_all isDigit d1" "digitsValue d1 < 2 ^ 63"
    and "d2 \<noteq> []" "list_all isDigit d2" "digitsValue d2 < 2 ^ 63"
    and "d3 \<noteq> []" "list_all isDigit d3" "digitsValue d3 < 2 ^ 63"
    and "noDigitAhead rest"
  shows "Sscanf_d_d_d (d1 @ ''-'' @ d2 @ ''-'' @ d3 @ rest) =
           Some (int (digitsValue d1), int (digitsValue d2), int (digitsValue d3))"
proof -
  have a: "scanInt (d1 @ (CHR ''-'' # d2 @ CHR ''-'' # d3 @ rest)) =
             Some (int (digitsValue d1), CHR ''-'' # d2 @ CHR ''-'' # d3 @ rest)"
    by (rule scanInt_digits [OF assms(1,2) noDigitAhead_dash assms(3)])
  have b: "scanInt (d2 @ (CHR ''-'' # d3 @ rest)) =
             Some (int (digitsValue d2), CHR ''-'' # d3 @ rest)"
    by (rule scanInt_digits [OF assms(4,5) noDigitAhead_dash assms(6)])
  have c: "scanInt (d3 @ rest) = Some (int (digitsValue d3), rest)"
    by (rule scanInt_digits [OF assms(7,8,10,9)])
  show ?thesis
    using a b c by (simp add: Sscanf_d_d_d_def matchLiteral_def)
qed

lemma fmtInt_nonneg: "0 \<le> i \<Longrightarrow> fmtInt i = fmtNat (nat i)"
  by (simp add: fmtInt_def)

lemma Sscanf_Sprintf:
  assumes "0 \<le> f" "f < 2 ^ 63" "0 \<le> row" "row < 2 ^ 63" "0 \<le> col" "col < 2 ^ 63"
  shows "Sscanf_d_d_d (Sprintf_d_d_d f row col) = Some (f, row, col)"
proof -
  have nd: "noDigitAhead []" by (simp add: noDigitAhead_def)
  have "Sscanf_d_d_d (fmtNat (nat f) @ ''-'' @ fmtNat (nat row) @ ''-'' @ fmtNat (nat col) @ []) =
          Some (int (digitsValue (fmtNat (nat f))), int (digitsValue (fmtNat (nat row))),
                int (digitsValue (fmtNat (nat col))))"
    using assms
    by (intro Sscanf_digits fmtNat_nonempty fmtNat_digits nd) (simp_all add: digitsValue_fmtNat nat_less_iff)
  then show ?thesis
    using assms by (simp add: Sprintf_d_d_d_def fmtInt_nonneg digitsValue_fmtNat)
qed

section \<open>Reading and writing the grid\<close>

lemma wellFormed_nth:
  assumes "wellFormed r" "isValidLocation r f row col"
  shows "nat f < length (spots r)"
    and "nat row < length (spots r ! nat f)"
    and "nat col < length (spots r ! nat f ! nat row)"
proof -
  from assms show f: "nat f < length (spots r)"
    by (simp add: wellFormed_def isValidLocation_def)
  from assms f have fl: "length (spots r ! nat f) = nat (rows r)"
    and rws: "list_all (\<lambda>rw. length rw = nat (columns r)) (spots r ! nat f)"
    by (simp_all add: wellFormed_def list_all_length)
  from assms fl show rw: "nat row < length (spots r ! nat f)"
    by (simp add: isValidLocation_def)
  from rws rw have "length (spots r ! nat f ! nat row) = nat (columns r)"
    by (simp add: list_all_length)
  with assms show "nat col < length (spots r ! nat f ! nat row)"
    by (simp add: isValidLocation_def)
qed

lemma sliceIndex_Some: "sliceIndex xs i = Some x \<longleftrightarrow> 0 \<le> i \<and> nat i < length xs \<and> x = xs ! nat i"
  by (auto simp: sliceIndex_def)

lemma sliceIndex_update:
  "0 \<le> j \<Longrightarrow> nat j < length xs \<Longrightarrow>
     sliceIndex (xs[nat j := y]) i = (if i = j then Some y else sliceIndex xs i)"
  by (auto simp: sliceIndex_def)

lemma getSpot_valid:
  assumes "wellFormed r" "isValidLocation r f row col"
  shows "getSpot r f row col = Some (spots r ! nat f ! nat row ! nat col)"
  using wellFormed_nth [OF assms] assms(2)
  by (simp add: getSpot_def sliceIndex_def isValidLocation_def)

lemma getSpot_Some_valid:
  assumes "wellFormed r" "getSpot r f row col = Some sp"
  shows "isValidLocation r f row col"
proof -
  from assms(2) have f: "0 \<le> f" "nat f < length (spots r)"
    and rw: "0 \<le> row" "nat row < length (spots r ! nat f)"
    and cl: "0 \<le> col" "nat col < length (spots r ! nat f ! nat row)"
    by (auto simp: getSpot_def sliceIndex_Some split: option.splits)
  from assms(1) f have fl: "length (spots r ! nat f) = nat (rows r)"
    and rws: "list_all (\<lambda>rw. length rw = nat (columns r)) (spots r ! nat f)"
    by (simp_all add: wellFormed_def list_all_length)
  from rws rw have "length (spots r ! nat f ! nat row) = nat (columns r)"
    by (simp add: list_all_length)
  with assms(1) f rw cl fl show ?thesis
    by (simp add: isValidLocation_def wellFormed_def)
qed

lemma setSpot_fields:
  "floors (setSpot r f row col sp) = floors r"
  "rows (setSpot r f row col sp) = rows r"
  "columns (setSpot r f row col sp) = columns r"
  "gates (setSpot r f row col sp) = gates r"
  "vehicleMap (setSpot r f row col sp) = vehicleMap r"
  "vehicleHistory (setSpot r f row col sp) = vehicleHistory r"
  by (simp_all add: setSpot_def)

lemma isValidLocation_setSpot:
  "isValidLocation (setSpot r f row col sp) f' row' col' = isValidLocation r f' row' col'"
  by (simp add: isValidLocation_def setSpot_fields)

lemma list_all_update:
  assumes "list_all P xs" "i < length xs \<Longrightarrow> P y"
  shows "list_all P (xs[i := y])"
proof (cases "i < length xs")
  case True
  with assms show ?thesis
    by (simp add: list_all_length nth_list_update)
next
  case False
  then have "xs[i := y] = xs" by (simp add: list_update_beyond)
  with assms(1) show ?thesis by simp
qed

lemma wellFormed_setSpot:
  assumes "wellFormed r"
  shows "wellFormed (setSpot r f row col sp)"
proof -
  let ?C = "\<lambda>rw::ParkingSpot list. length rw = nat (columns r)"
  let ?R = "\<lambda>fl. length fl = nat (rows r) \<and> list_all ?C fl"
  from assms have all: "list_all ?R (spots r)"
    and len: "length (spots r) = nat (floors r)"
    and dims: "floors r < 2 ^ 63" "rows r < 2 ^ 63" "columns r < 2 ^ 63"
    by (simp_all add: wellFormed_def)
  have "list_all ?R ((spots r)[nat f :=
          (spots r ! nat f)[nat row := (spots r ! nat f ! nat row)[nat col := sp]]])"
  proof (rule list_all_update [OF all])
    assume f: "nat f < length (spots r)"
    with all have R: "?R (spots r ! nat f)" by (simp add: list_all_length)
    then have C: "list_all ?C (spots r ! nat f)" by simp
    have "list_all ?C ((spots r ! nat f)[nat row := (spots r ! nat f ! nat row)[nat col := sp]])"
    proof (rule list_all_update [OF C])
      assume "nat row < length (spots r ! nat f)"
      with C show "?C ((spots r ! nat f ! nat row)[nat col := sp])"
        by (simp add: list_all_length)
    qed
    with R show "?R ((spots r ! nat f)[nat row := (spots r ! nat f ! nat row)[nat col := sp]])"
      by simp
  qed
  with len dims show ?thesis
    by (simp add: wellFormed_def setSpot_def)
qed

lemma getSpot_setSpot:
  assumes "wellFormed r" "isValidLocation r f row col"
  shows "getSpot (setSpot r f row col sp) f' row' col' =
           (if f' = f \<and> row' = row \<and> col' = col then Some sp else getSpot r f' row' col')"
proof -
  note n = wellFormed_nth [OF assms]
  from assms(2) have nn: "0 \<le> f" "0 \<le> row" "0 \<le> col"
    by (simp_all add: isValidLocation_def)
  have s1: "sliceIndex (spots r) f = Some (spots r ! nat f)"
    and s2: "sliceIndex (spots r ! nat f) row = Some (spots r ! nat f ! nat row)"
    using n nn by (simp_all add: sliceIndex_def)
  show ?thesis
    unfolding getSpot_def setSpot_def
    using s1 s2
    by (simp add: sliceIndex_update [OF nn(1) n(1)] sliceIndex_update [OF nn(2) n(2)]
        sliceIndex_update [OF nn(3) n(3)])
qed

lemma map_update_grid:
  "getSpot (r\<lparr>vehicleMap := m\<rparr>) f row col = getSpot r f row col"
  "getSpot (r\<lparr>vehicleHistory := h\<rparr>) f row col = getSpot r f row col"
  "isValidLocation (r\<lparr>vehicleMap := m\<rparr>) f row col = isValidLocation r f row col"
  "isValidLocation (r\<lparr>vehicleHistory := h\<rparr>) f row col = isValidLocation r f row col"
  "wellFormed (r\<lparr>vehicleMap := m\<rparr>) = wellFormed r"
  "wellFormed (r\<lparr>vehicleHistory := h\<rparr>) = wellFormed r"
  by (simp_all add: getSpot_def isValidLocation_def wellFormed_def)

section \<open>The small lot, evaluated\<close>

lemmas eval_defs =
  Service_InitializeParkingLot_def Repo_InitializeParkingLot_def makePanics_def maxAlloc_def
  NewParkingRepository_def
  makeGrid_def newSpot_def Service_ConfigureSpot_def Repo_ConfigureSpot_def IsValidLocation_def
  isValidLocation_def IsSpotOccupied_def getSpot_def sliceIndex_def setSpot_def spotTypeOf_def
  Bicycle_def Motorcycle_def Automobile_def bicycleSpot_def smallLot_def smallLotParked_def Let_def

lemmas scan_defs =
  Sscanf_d_d_d_def scanInt_def acceptSign_def scanNumber_def ParseInt_def isDigit_def
  SkipSpace.simps spaceWidth_def spaceRunes_def matchLiteral_def digitsValue_def digitVal_def

lemmas fmt_defs = Sprintf_d_d_d_def fmtInt_def fmtNat.simps digitChar_def

lemma init_eval:
  "Service_InitializeParkingLot NewParkingRepository 1 1 2 1 =
     (None, \<lparr>floors = 1, rows = 1, columns = 2,
             spots = [[[newSpot 0 0 0, newSpot 0 0 1]]], gates = 1,
             vehicleMap = Map.empty, vehicleHistory = Map.empty\<rparr>)"
  by (simp add: Service_InitializeParkingLot_def Repo_InitializeParkingLot_def makePanics_def
      maxAlloc_def NewParkingRepository_def makeGrid_def Let_def upt_rec)

lemma conf1_eval:
  "Service_ConfigureSpot \<lparr>floors = 1, rows = 1, columns = 2,
             spots = [[[newSpot 0 0 0, newSpot 0 0 1]]], gates = 1,
             vehicleMap = Map.empty, vehicleHistory = Map.empty\<rparr> 0 0 0 ''B-1'' =
     (None, \<lparr>floors = 1, rows = 1, columns = 2,
             spots = [[[bicycleSpot 0 False [], newSpot 0 0 1]]], gates = 1,
             vehicleMap = Map.empty, vehicleHistory = Map.empty\<rparr>)"
  by (simp add: eval_defs)

lemma conf2_eval:
  "Service_ConfigureSpot \<lparr>floors = 1, rows = 1, columns = 2,
             spots = [[[bicycleSpot 0 False [], newSpot 0 0 1]]], gates = 1,
             vehicleMap = Map.empty, vehicleHistory = Map.empty\<rparr> 0 0 1 ''B-1'' =
     (None, smallLot)"
  by (simp add: eval_defs)

lemma smallLot_reachable: "reachable smallLot"
  by (rule reachable.configured [OF reachable.configured [OF reachable.initialized [OF init_eval] conf1_eval] conf2_eval])

lemma find_small: "FindAvailableSpot smallLot ''Bicycle'' = Inr ''0-0-0''"
  by (simp add: FindAvailableSpot_def findFloor.simps findRow.simps findCol.simps eval_defs available_def fmt_defs)

lemma park_small: "Park smallLot Bicycle ''BC1'' = (Inr ''0-0-0'', smallLotParked)"
  by (simp add: Park_def validateVehicleType_def validateVehicleNumber_def IsVehicleParked_def
       find_small [unfolded smallLot_def bicycleSpot_def]
       ParkVehicle_def parseSpotID_def scan_defs eval_defs)

lemma smallLotParked_reachable: "reachable smallLotParked"
  by (rule reachable.parked [OF smallLot_reachable park_small])

section \<open>Failing calls of \<open>Unpark\<close>\<close>

text \<open>
  Claim C3. For a non-empty vehicle number, \<open>Unpark\<close> fails with
  \<open>VehicleNotParked\<close> when the vehicle has no entry in the current map, and with
  \<open>VehicleNotAtSpot\<close> when its entry is a spot other than the one given; and
  whenever \<open>Unpark\<close> fails, the repository it leaves behind (grid, current map
  and history map) is the one it started from. This holds in every state of
  the repository, reachable or not.
\<close>

theorem Unpark_rejections:
  "(vehicleNumber \<noteq> [] \<and> vehicleMap r vehicleNumber = None \<longrightarrow>
      Unpark r spotID vehicleNumber = (Some (ErrVehicleNotParked vehicleNumber), r)) \<and>
   (vehicleNumber \<noteq> [] \<and> vehicleMap r vehicleNumber = Some current \<and> current \<noteq> spotID \<longrightarrow>
      Unpark r spotID vehicleNumber = (Some (ErrVehicleNotAtSpot vehicleNumber spotID current), r)) \<and>
   (Unpark r spotID vehicleNumber = (Some e, r') \<longrightarrow> r' = r)"
  by (auto simp: Unpark_def validateVehicleNumber_def IsVehicleParked_def ParseSpotID_def
        UnparkVehicle_def split: option.splits if_splits sum.splits prod.splits)

theorem Unpark_rejections_witness:
  "vehicleMap smallLotParked ''BC2'' = None \<and>
   Unpark smallLotParked ''0-0-0'' ''BC2'' = (Some (ErrVehicleNotParked ''BC2''), smallLotParked) \<and>
   vehicleMap smallLotParked ''BC1'' = Some ''0-0-0'' \<and>
   Unpark smallLotParked ''0-0-1'' ''BC1'' =
     (Some (ErrVehicleNotAtSpot ''BC1'' ''0-0-1'' ''0-0-0''), smallLotParked)"
proof -
  have m1: "vehicleMap smallLotParked ''BC2'' = None"
    and m2: "vehicleMap smallLotParked ''BC1'' = Some ''0-0-0''"
    by (simp_all add: smallLotParked_def)
  from m1 Unpark_rejections [where vehicleNumber = "''BC2''" and r = smallLotParked
      and spotID = "''0-0-0''"]
  have u1: "Unpark smallLotParked ''0-0-0'' ''BC2'' =
              (Some (ErrVehicleNotParked ''BC2''), smallLotParked)"
    by simp
  from m2 Unpark_rejections [where vehicleNumber = "''BC1''" and r = smallLotParked
      and spotID = "''0-0-1''" and current = "''0-0-0''"]
  have u2: "Unpark smallLotParked ''0-0-1'' ''BC1'' =
              (Some (ErrVehicleNotAtSpot ''BC1'' ''0-0-1'' ''0-0-0''), smallLotParked)"
    by simp
  from m1 m2 u1 u2 show ?thesis by simp
qed

section \<open>Configuring an occupied spot\<close>

text \<open>
  Claim C8. For an in-bounds coordinate whose spot is occupied, \<open>ConfigureSpot\<close>
  of the service fails with the "cannot reconfigure an occupied parking spot"
  error whatever the spot type code is, and returns the repository unchanged,
  so the spot keeps its vehicle type and its active flag.
\<close>

theorem ConfigureSpot_occupied:
  assumes "isValidLocation r floor row column"
    and "getSpot r floor row column = Some spot"
    and "IsOccupied spot"
  shows "Service_ConfigureSpot r floor row column spotType = (Some ErrOccupiedReconfigure, r) \<and>
         getSpot (snd (Service_ConfigureSpot r floor row column spotType)) floor row column = Some spot"
  using assms by (simp add: Service_ConfigureSpot_def IsValidLocation_def IsSpotOccupied_def)

theorem ConfigureSpot_occupied_witness:
  "isValidLocation smallLotParked 0 0 0 \<and>
   getSpot smallLotParked 0 0 0 = Some (bicycleSpot 0 True ''BC1'') \<and>
   IsOccupied (bicycleSpot 0 True ''BC1'') \<and>
   Service_ConfigureSpot smallLotParked 0 0 0 ''X-0'' = (Some ErrOccupiedReconfigure, smallLotParked)"
proof -
  have v: "isValidLocation smallLotParked 0 0 0"
    by (simp add: isValidLocation_def smallLotParked_def)
  have g: "getSpot smallLotParked 0 0 0 = Some (bicycleSpot 0 True ''BC1'')"
    by (simp add: getSpot_def sliceIndex_def smallLotParked_def)
  have o: "IsOccupied (bicycleSpot 0 True ''BC1'')"
    by (simp add: bicycleSpot_def)
  from ConfigureSpot_occupied [OF v g o, of "''X-0''"] v g o show ?thesis by simp
qed

section \<open>Initializing again\<close>

lemma getSpot_makeGrid:
  assumes "spots r = makeGrid fl rw cl" "getSpot r f row col = Some spot"
  shows "spot = newSpot f row col"
  using assms
  by (auto simp: getSpot_def sliceIndex_Some makeGrid_def split: option.splits)

text \<open>
  Claim C10. A successful \<open>InitializeParkingLot\<close>, of the repository or of the
  service, replaces the grid and leaves the current map and the history map as
  they were: a vehicle that was parked at a spot is still reported as parked
  there by \<open>SearchVehicle\<close>, although no spot of the new grid is occupied.
\<close>

theorem InitializeParkingLot_keeps_maps:
  assumes "Repo_InitializeParkingLot r fl rw cl g = (None, r') \<or>
           Service_InitializeParkingLot r fl rw cl g = (None, r')"
  shows "vehicleMap r' = vehicleMap r \<and> vehicleHistory r' = vehicleHistory r \<and>
         (vehicleMap r v = Some s \<longrightarrow> Repo_SearchVehicle r' v = Inr (s, True)) \<and>
         (getSpot r' f row col = Some spot \<longrightarrow> \<not> IsOccupied spot)"
proof -
  from assms have i: "Repo_InitializeParkingLot r fl rw cl g = (None, r')"
    by (auto simp: Service_InitializeParkingLot_def split: if_splits)
  then have r': "r' = r\<lparr>floors := fl, rows := rw, columns := cl, gates := g,
                       spots := makeGrid fl rw cl\<rparr>"
    by (auto simp: Repo_InitializeParkingLot_def Let_def split: if_splits)
  then have m: "vehicleMap r' = vehicleMap r" "vehicleHistory r' = vehicleHistory r"
    and sp: "spots r' = makeGrid fl rw cl"
    by simp_all
  have "\<not> IsOccupied spot" if "getSpot r' f row col = Some spot"
    using getSpot_makeGrid [OF sp that] by (simp add: newSpot_def)
  with m show ?thesis
    by (simp add: Repo_SearchVehicle_def)
qed

theorem InitializeParkingLot_keeps_maps_witness:
  "Service_InitializeParkingLot smallLotParked 1 1 2 1 =
     (None, smallLotParked\<lparr>spots := [[[newSpot 0 0 0, newSpot 0 0 1]]]\<rparr>) \<and>
   vehicleMap smallLotParked ''BC1'' = Some ''0-0-0'' \<and>
   Repo_SearchVehicle (smallLotParked\<lparr>spots := [[[newSpot 0 0 0, newSpot 0 0 1]]]\<rparr>) ''BC1'' =
     Inr (''0-0-0'', True) \<and>
   getSpot (smallLotParked\<lparr>spots := [[[newSpot 0 0 0, newSpot 0 0 1]]]\<rparr>) 0 0 0 =
     Some (newSpot 0 0 0) \<and>
   \<not> IsOccupied (newSpot 0 0 0)"
proof -
  let ?r' = "smallLotParked\<lparr>spots := [[[newSpot 0 0 0, newSpot 0 0 1]]]\<rparr>"
  have i: "Service_InitializeParkingLot smallLotParked 1 1 2 1 = (None, ?r')"
    by (simp add: Service_InitializeParkingLot_def Repo_InitializeParkingLot_def makePanics_def
        maxAlloc_def makeGrid_def Let_def upt_rec smallLotParked_def)
  have g: "getSpot ?r' 0 0 0 = Some (newSpot 0 0 0)"
    by (simp add: getSpot_def sliceIndex_def)
  have m: "vehicleMap smallLotParked ''BC1'' = Some ''0-0-0''"
    by (simp add: smallLotParked_def)
  from InitializeParkingLot_keeps_maps [OF disjI2 [OF i], of "''BC1''" "''0-0-0''" 0 0 0 "newSpot 0 0 0"]
    i g m
  show ?thesis by simp
qed

section \<open>The availability scan\<close>

lemma availableAt_iff:
  assumes "wellFormed r" "isValidLocation r f row col" "getSpot r f row col = Some sp"
  shows "availableAt r vt f row col \<longleftrightarrow> available sp vt"
  using assms by (simp add: availableAt_def)

lemma availableAt_bounds:
  "availableAt r vt f row col \<Longrightarrow>
     0 \<le> f \<and> f < floors r \<and> 0 \<le> row \<and> row < rows r \<and> 0 \<le> col \<and> col < columns r"
  by (simp add: availableAt_def isValidLocation_def)

lemma findCol_spec:
  assumes "wellFormed r" "0 \<le> f" "f < floors r" "0 \<le> row" "row < rows r" "0 \<le> col"
  shows "case findCol r vt f row col of
           Inl e \<Rightarrow> False
         | Inr None \<Rightarrow> (\<forall>c'. col \<le> c' \<longrightarrow> \<not> availableAt r vt f row c')
         | Inr (Some s) \<Rightarrow>
             (\<exists>c. col \<le> c \<and> s = Sprintf_d_d_d f row c \<and> availableAt r vt f row c \<and>
                  (\<forall>c'. col \<le> c' \<and> availableAt r vt f row c' \<longrightarrow> c \<le> c'))"
  using assms
proof (induction r vt f row col rule: findCol.induct)
  case (1 r vt f row col)
  show ?case
  proof (cases "col < columns r")
    case False
    then have "findCol r vt f row col = Inr None"
      by (simp add: findCol.simps [of r vt f row col])
    moreover from False have "\<forall>c'. col \<le> c' \<longrightarrow> \<not> availableAt r vt f row c'"
      by (auto dest: availableAt_bounds)
    ultimately show ?thesis by simp
  next
    case True
    with 1 have v: "isValidLocation r f row col"
      by (simp add: isValidLocation_def)
    from getSpot_valid [OF "1.prems"(1) v]
    obtain sp where sp: "getSpot r f row col = Some sp" by blast
    note av = availableAt_iff [OF "1.prems"(1) v sp]
    show ?thesis
    proof (cases "available sp vt")
      case a: True
      then have "findCol r vt f row col = Inr (Some (Sprintf_d_d_d f row col))"
        using True sp by (simp add: findCol.simps [of r vt f row col])
      moreover have "availableAt r vt f row col" using a av by simp
      ultimately show ?thesis by auto
    next
      case a: False
      have eq: "findCol r vt f row col = findCol r vt f row (col + 1)"
        using True sp a by (simp add: findCol.simps [of r vt f row col])
      have ih: "case findCol r vt f row (col + 1) of
           Inl e \<Rightarrow> False
         | Inr None \<Rightarrow> (\<forall>c'. col + 1 \<le> c' \<longrightarrow> \<not> availableAt r vt f row c')
         | Inr (Some s) \<Rightarrow>
             (\<exists>c. col + 1 \<le> c \<and> s = Sprintf_d_d_d f row c \<and> availableAt r vt f row c \<and>
                  (\<forall>c'. col + 1 \<le> c' \<and> availableAt r vt f row c' \<longrightarrow> c \<le> c'))"
        using "1.IH" [OF True sp a] "1.prems" by simp
      have na: "\<not> availableAt r vt f row col" using a av by simp
      have step: "col \<le> c' \<Longrightarrow> availableAt r vt f row c' \<Longrightarrow> col + 1 \<le> c'" for c'
        using na by (cases "c' = col") auto
      show ?thesis
      proof (cases "findCol r vt f row (col + 1)")
        case (Inl e)
        with ih show ?thesis by simp
      next
        case (Inr res)
        show ?thesis
        proof (cases res)
          case None
          with ih Inr have "\<forall>c'. col + 1 \<le> c' \<longrightarrow> \<not> availableAt r vt f row c'" by simp
          with step have "\<forall>c'. col \<le> c' \<longrightarrow> \<not> availableAt r vt f row c'" by blast
          with eq Inr None show ?thesis by simp
        next
          case (Some s)
          with ih Inr obtain c where c: "col + 1 \<le> c" "s = Sprintf_d_d_d f row c"
            "availableAt r vt f row c"
            "\<forall>c'. col + 1 \<le> c' \<and> availableAt r vt f row c' \<longrightarrow> c \<le> c'"
            by auto
          from c(4) step have "\<forall>c'. col \<le> c' \<and> availableAt r vt f row c' \<longrightarrow> c \<le> c'"
            by blast
          with c have "\<exists>c. col \<le> c \<and> s = Sprintf_d_d_d f row c \<and> availableAt r vt f row c \<and>
                  (\<forall>c'. col \<le> c' \<and> availableAt r vt f row c' \<longrightarrow> c \<le> c')"
            by (intro exI [of _ c]) simp
          with eq Inr Some show ?thesis by simp
        qed
      qed
    qed
  qed
qed


lemma findRow_spec:
  assumes "wellFormed r" "0 \<le> f" "f < floors r" "0 \<le> row"
  shows "case findRow r vt f row of
           Inl e \<Rightarrow> False
         | Inr None \<Rightarrow> (\<forall>rw' c'. row \<le> rw' \<longrightarrow> \<not> availableAt r vt f rw' c')
         | Inr (Some s) \<Rightarrow>
             (\<exists>rw c. row \<le> rw \<and> s = Sprintf_d_d_d f rw c \<and> availableAt r vt f rw c \<and>
                  (\<forall>rw' c'. row \<le> rw' \<and> availableAt r vt f rw' c'
                      \<longrightarrow> rw < rw' \<or> (rw = rw' \<and> c \<le> c')))"
  using assms
proof (induction r vt f row rule: findRow.induct)
  case (1 r vt f row)
  show ?case
  proof (cases "row < rows r")
    case False
    then have "findRow r vt f row = Inr None"
      by (simp add: findRow.simps [of r vt f row])
    moreover from False have "\<forall>rw' c'. row \<le> rw' \<longrightarrow> \<not> availableAt r vt f rw' c'"
      by (auto dest: availableAt_bounds)
    ultimately show ?thesis by simp
  next
    case True
    note cs = findCol_spec [OF "1.prems"(1-4) True order_refl, of vt]
    show ?thesis
    proof (cases "findCol r vt f row 0")
      case (Inl e)
      with cs show ?thesis by simp
    next
      case (Inr res)
      show ?thesis
      proof (cases res)
        case (Some s)
        with cs Inr obtain c where c: "s = Sprintf_d_d_d f row c" "availableAt r vt f row c"
          "\<forall>c'. 0 \<le> c' \<and> availableAt r vt f row c' \<longrightarrow> c \<le> c'"
          by auto
        have eq: "findRow r vt f row = Inr (Some s)"
          using True Inr Some by (simp add: findRow.simps [of r vt f row])
        have "rw' = row \<and> c \<le> c' \<or> row < rw'"
          if "row \<le> rw'" "availableAt r vt f rw' c'" for rw' c'
        proof (cases "rw' = row")
          case True
          with that c(3) availableAt_bounds [OF that(2)] show ?thesis by simp
        next
          case False
          with that show ?thesis by simp
        qed
        then have "\<forall>rw' c'. row \<le> rw' \<and> availableAt r vt f rw' c'
                      \<longrightarrow> row < rw' \<or> (row = rw' \<and> c \<le> c')"
          by blast
        with c have "\<exists>rw c. row \<le> rw \<and> s = Sprintf_d_d_d f rw c \<and> availableAt r vt f rw c \<and>
                  (\<forall>rw' c'. row \<le> rw' \<and> availableAt r vt f rw' c'
                      \<longrightarrow> rw < rw' \<or> (rw = rw' \<and> c \<le> c'))"
          by (intro exI [of _ row] exI [of _ c]) simp
        with eq show ?thesis by simp
      next
        case None
        with cs Inr have none: "\<forall>c'. 0 \<le> c' \<longrightarrow> \<not> availableAt r vt f row c'" by simp
        have eq: "findRow r vt f row = findRow r vt f (row + 1)"
          using True Inr None by (simp add: findRow.simps [of r vt f row])
        have ih: "case findRow r vt f (row + 1) of
           Inl e \<Rightarrow> False
         | Inr None \<Rightarrow> (\<forall>rw' c'. row + 1 \<le> rw' \<longrightarrow> \<not> availableAt r vt f rw' c')
         | Inr (Some s) \<Rightarrow>
             (\<exists>rw c. row + 1 \<le> rw \<and> s = Sprintf_d_d_d f rw c \<and> availableAt r vt f rw c \<and>
                  (\<forall>rw' c'. row + 1 \<le> rw' \<and> availableAt r vt f rw' c'
                      \<longrightarrow> rw < rw' \<or> (rw = rw' \<and> c \<le> c')))"
          using "1.IH" [OF True Inr None] "1.prems" by simp
        have step: "row + 1 \<le> rw'" if "row \<le> rw'" "availableAt r vt f rw' c'" for rw' c'
        proof (cases "rw' = row")
          case True
          with that none availableAt_bounds [OF that(2)] show ?thesis by blast
        next
          case False
          with that show ?thesis by simp
        qed
        show ?thesis
        proof (cases "findRow r vt f (row + 1)")
          case (Inl e)
          with ih show ?thesis by simp
        next
          case r2: (Inr res2)
          show ?thesis
          proof (cases res2)
            case None
            with ih r2 have "\<forall>rw' c'. row + 1 \<le> rw' \<longrightarrow> \<not> availableAt r vt f rw' c'" by simp
            with step have "\<forall>rw' c'. row \<le> rw' \<longrightarrow> \<not> availableAt r vt f rw' c'" by blast
            with eq r2 None show ?thesis by simp
          next
            case (Some s)
            with ih r2 obtain rw c where c: "row + 1 \<le> rw" "s = Sprintf_d_d_d f rw c"
              "availableAt r vt f rw c"
              "\<forall>rw' c'. row + 1 \<le> rw' \<and> availableAt r vt f rw' c'
                      \<longrightarrow> rw < rw' \<or> (rw = rw' \<and> c \<le> c')"
              by auto
            from c(4) step have "\<forall>rw' c'. row \<le> rw' \<and> availableAt r vt f rw' c'
                      \<longrightarrow> rw < rw' \<or> (rw = rw' \<and> c \<le> c')"
              by blast
            with c have "\<exists>rw c. row \<le> rw \<and> s = Sprintf_d_d_d f rw c \<and> availableAt r vt f rw c \<and>
                  (\<forall>rw' c'. row \<le> rw' \<and> availableAt r vt f rw' c'
                      \<longrightarrow> rw < rw' \<or> (rw = rw' \<and> c \<le> c'))"
              by (intro exI [of _ rw] exI [of _ c]) simp
            with eq r2 Some show ?thesis by simp
          qed
        qed
      qed
    qed
  qed
qed

lemma findFloor_spec:
  assumes "wellFormed r" "0 \<le> f"
  shows "case findFloor r vt f of
           Inl e \<Rightarrow> False
         | Inr None \<Rightarrow> (\<forall>f' rw' c'. f \<le> f' \<longrightarrow> \<not> availableAt r vt f' rw' c')
         | Inr (Some s) \<Rightarrow>
             (\<exists>fl rw c. f \<le> fl \<and> s = Sprintf_d_d_d fl rw c \<and> availableAt r vt fl rw c \<and>
                  (\<forall>f' rw' c'. f \<le> f' \<and> availableAt r vt f' rw' c'
                      \<longrightarrow> lexLe (fl, rw, c) (f', rw', c')))"
  using assms
proof (induction r vt f rule: findFloor.induct)
  case (1 r vt f)
  show ?case
  proof (cases "f < floors r")
    case False
    then have "findFloor r vt f = Inr None"
      by (simp add: findFloor.simps [of r vt f])
    moreover from False have "\<forall>f' rw' c'. f \<le> f' \<longrightarrow> \<not> availableAt r vt f' rw' c'"
      by (auto dest: availableAt_bounds)
    ultimately show ?thesis by simp
  next
    case True
    note rs = findRow_spec [OF "1.prems"(1,2) True order_refl, of vt]
    show ?thesis
    proof (cases "findRow r vt f 0")
      case (Inl e)
      with rs show ?thesis by simp
    next
      case (Inr res)
      show ?thesis
      proof (cases res)
        case (Some s)
        with rs Inr obtain rw c where c: "s = Sprintf_d_d_d f rw c" "availableAt r vt f rw c"
          "\<forall>rw' c'. 0 \<le> rw' \<and> availableAt r vt f rw' c' \<longrightarrow> rw < rw' \<or> (rw = rw' \<and> c \<le> c')"
          by auto
        have eq: "findFloor r vt f = Inr (Some s)"
          using True Inr Some by (simp add: findFloor.simps [of r vt f])
        have "lexLe (f, rw, c) (f', rw', c')"
          if "f \<le> f'" "availableAt r vt f' rw' c'" for f' rw' c'
        proof (cases "f' = f")
          case True
          with that c(3) availableAt_bounds [OF that(2)] show ?thesis
            by (simp add: lexLe_def)
        next
          case False
          with that show ?thesis by (simp add: lexLe_def)
        qed
        then have "\<forall>f' rw' c'. f \<le> f' \<and> availableAt r vt f' rw' c'
                      \<longrightarrow> lexLe (f, rw, c) (f', rw', c')"
          by blast
        with c have "\<exists>fl rw c. f \<le> fl \<and> s = Sprintf_d_d_d fl rw c \<and> availableAt r vt fl rw c \<and>
                  (\<forall>f' rw' c'. f \<le> f' \<and> availableAt r vt f' rw' c'
                      \<longrightarrow> lexLe (fl, rw, c) (f', rw', c'))"
          by (intro exI [of _ f] exI [of _ rw] exI [of _ c]) simp
        with eq show ?thesis by simp
      next
        case None
        with rs Inr have none: "\<forall>rw' c'. 0 \<le> rw' \<longrightarrow> \<not> availableAt r vt f rw' c'" by simp
        have eq: "findFloor r vt f = findFloor r vt (f + 1)"
          using True Inr None by (simp add: findFloor.simps [of r vt f])
        have ih: "case findFloor r vt (f + 1) of
           Inl e \<Rightarrow> False
         | Inr None \<Rightarrow> (\<forall>f' rw' c'. f + 1 \<le> f' \<longrightarrow> \<not> availableAt r vt f' rw' c')
         | Inr (Some s) \<Rightarrow>
             (\<exists>fl rw c. f + 1 \<le> fl \<and> s = Sprintf_d_d_d fl rw c \<and> availableAt r vt fl rw c \<and>
                  (\<forall>f' rw' c'. f + 1 \<le> f' \<and> availableAt r vt f' rw' c'
                      \<longrightarrow> lexLe (fl, rw, c) (f', rw', c')))"
          using "1.IH" [OF True Inr None] "1.prems" by simp
        have step: "f + 1 \<le> f'" if "f \<le> f'" "availableAt r vt f' rw' c'" for f' rw' c'
        proof (cases "f' = f")
          case True
          with that none availableAt_bounds [OF that(2)] show ?thesis by blast
        next
          case False
          with that show ?thesis by simp
        qed
        show ?thesis
        proof (cases "findFloor r vt (f + 1)")
          case (Inl e)
          with ih show ?thesis by simp
        next
          case r2: (Inr res2)
          show ?thesis
          proof (cases res2)
            case None
            with ih r2 have "\<forall>f' rw' c'. f + 1 \<le> f' \<longrightarrow> \<not> availableAt r vt f' rw' c'" by simp
            with step have "\<forall>f' rw' c'. f \<le> f' \<longrightarrow> \<not> availableAt r vt f' rw' c'" by blast
            with eq r2 None show ?thesis by simp
          next
            case (Some s)
            with ih r2 obtain fl rw c where c: "f + 1 \<le> fl" "s = Sprintf_d_d_d fl rw c"
              "availableAt r vt fl rw c"
              "\<forall>f' rw' c'. f + 1 \<le> f' \<and> availableAt r vt f' rw' c'
                      \<longrightarrow> lexLe (fl, rw, c) (f', rw', c')"
              by auto
            from c(4) step have "\<forall>f' rw' c'. f \<le> f' \<and> availableAt r vt f' rw' c'
                      \<longrightarrow> lexLe (fl, rw, c) (f', rw', c')"
              by blast
            with c have "\<exists>fl rw c. f \<le> fl \<and> s = Sprintf_d_d_d fl rw c \<and> availableAt r vt fl rw c \<and>
                  (\<forall>f' rw' c'. f \<le> f' \<and> availableAt r vt f' rw' c'
                      \<longrightarrow> lexLe (fl, rw, c) (f', rw', c'))"
              by (intro exI [of _ fl] exI [of _ rw] exI [of _ c]) simp
            with eq r2 Some show ?thesis by simp
          qed
        qed
      qed
    qed
  qed
qed


lemma getSpot_sameGrid: "sameGrid r r' \<Longrightarrow> getSpot r' f row col = getSpot r f row col"
  by (simp add: sameGrid_def getSpot_def)

lemma findCol_sameGrid:
  "sameGrid r r' \<Longrightarrow> findCol r' vt f row col = findCol r vt f row col"
proof (induction r vt f row col rule: findCol.induct)
  case (1 r vt f row col)
  from "1.prems" have c: "columns r' = columns r" by (simp add: sameGrid_def)
  show ?case
  proof (cases "col < columns r")
    case False
    with c show ?thesis
      by (simp add: findCol.simps [of r vt f row col] findCol.simps [of r' vt f row col])
  next
    case True
    show ?thesis
    proof (cases "getSpot r f row col")
      case None
      with True c getSpot_sameGrid [OF "1.prems", of f row col] show ?thesis
        by (simp add: findCol.simps [of r vt f row col] findCol.simps [of r' vt f row col])
    next
      case (Some sp)
      with True c getSpot_sameGrid [OF "1.prems", of f row col] "1.IH" [OF True Some] "1.prems"
      show ?thesis
        by (simp add: findCol.simps [of r vt f row col] findCol.simps [of r' vt f row col])
    qed
  qed
qed

lemma findRow_sameGrid:
  "sameGrid r r' \<Longrightarrow> findRow r' vt f row = findRow r vt f row"
proof (induction r vt f row rule: findRow.induct)
  case (1 r vt f row)
  from "1.prems" have c: "rows r' = rows r" by (simp add: sameGrid_def)
  note fc = findCol_sameGrid [OF "1.prems", of vt f row 0]
  show ?case
  proof (cases "row < rows r")
    case False
    with c show ?thesis
      by (simp add: findRow.simps [of r vt f row] findRow.simps [of r' vt f row])
  next
    case True
    show ?thesis
    proof (cases "findCol r vt f row 0")
      case (Inl e)
      with True c fc show ?thesis
        by (simp add: findRow.simps [of r vt f row] findRow.simps [of r' vt f row])
    next
      case (Inr res)
      show ?thesis
      proof (cases res)
        case None
        with True c fc Inr "1.IH" [OF True Inr None] "1.prems" show ?thesis
          by (simp add: findRow.simps [of r vt f row] findRow.simps [of r' vt f row])
      next
        case (Some s)
        with True c fc Inr show ?thesis
          by (simp add: findRow.simps [of r vt f row] findRow.simps [of r' vt f row])
      qed
    qed
  qed
qed

lemma findFloor_sameGrid:
  "sameGrid r r' \<Longrightarrow> findFloor r' vt f = findFloor r vt f"
proof (induction r vt f rule: findFloor.induct)
  case (1 r vt f)
  from "1.prems" have c: "floors r' = floors r" by (simp add: sameGrid_def)
  note fr = findRow_sameGrid [OF "1.prems", of vt f 0]
  show ?case
  proof (cases "f < floors r")
    case False
    with c show ?thesis
      by (simp add: findFloor.simps [of r vt f] findFloor.simps [of r' vt f])
  next
    case True
    show ?thesis
    proof (cases "findRow r vt f 0")
      case (Inl e)
      with True c fr show ?thesis
        by (simp add: findFloor.simps [of r vt f] findFloor.simps [of r' vt f])
    next
      case (Inr res)
      show ?thesis
      proof (cases res)
        case None
        with True c fr Inr "1.IH" [OF True Inr None] "1.prems" show ?thesis
          by (simp add: findFloor.simps [of r vt f] findFloor.simps [of r' vt f])
      next
        case (Some s)
        with True c fr Inr show ?thesis
          by (simp add: findFloor.simps [of r vt f] findFloor.simps [of r' vt f])
      qed
    qed
  qed
qed

lemma FindAvailableSpot_spec:
  assumes "wellFormed r"
  shows "case FindAvailableSpot r vt of
           Inr s \<Rightarrow>
             (\<exists>f row col. s = Sprintf_d_d_d f row col \<and> availableAt r vt f row col \<and>
                (\<forall>f' row' col'. availableAt r vt f' row' col'
                    \<longrightarrow> lexLe (f, row, col) (f', row', col')))
         | Inl e \<Rightarrow> e = ErrNoAvailableSpot \<and> (\<forall>f row col. \<not> availableAt r vt f row col)"
proof -
  note fs = findFloor_spec [OF assms order_refl, of vt]
  show ?thesis
  proof (cases "findFloor r vt 0")
    case (Inl e)
    with fs show ?thesis by simp
  next
    case (Inr res)
    show ?thesis
    proof (cases res)
      case None
      with fs Inr have "\<forall>f' rw' c'. 0 \<le> f' \<longrightarrow> \<not> availableAt r vt f' rw' c'" by simp
      then have "\<forall>f row col. \<not> availableAt r vt f row col"
        using availableAt_bounds by blast
      with Inr None show ?thesis by (simp add: FindAvailableSpot_def)
    next
      case (Some s)
      with fs Inr obtain fl rw c where c: "s = Sprintf_d_d_d fl rw c" "availableAt r vt fl rw c"
        "\<forall>f' rw' c'. 0 \<le> f' \<and> availableAt r vt f' rw' c' \<longrightarrow> lexLe (fl, rw, c) (f', rw', c')"
        by auto
      from c(3) have "\<forall>f' rw' c'. availableAt r vt f' rw' c' \<longrightarrow> lexLe (fl, rw, c) (f', rw', c')"
        using availableAt_bounds by blast
      with c have "\<exists>f row col. s = Sprintf_d_d_d f row col \<and> availableAt r vt f row col \<and>
                (\<forall>f' row' col'. availableAt r vt f' row' col'
                    \<longrightarrow> lexLe (f, row, col) (f', row', col'))"
        by (intro exI [of _ fl] exI [of _ rw] exI [of _ c]) simp
      with Inr Some show ?thesis by (simp add: FindAvailableSpot_def)
    qed
  qed
qed

text \<open>
  Claim C4. On every grid and for every vehicle type, \<open>FindAvailableSpot\<close>
  returns the identifier of the spot that is first in the order floor, then
  row, then column among the spots that are in bounds, active, of the requested
  type and unoccupied: every such spot is at or after the one returned. It
  fails, with \<open>NoAvailableSpot\<close>, exactly when there is no such spot. The
  result depends on the grid alone: on a repository with the same dimensions
  and the same spots the call returns the same result.
\<close>

theorem FindAvailableSpot_first_in_scan_order:
  assumes "wellFormed r"
  shows "(case FindAvailableSpot r vt of
            Inr s \<Rightarrow>
              (\<exists>f row col. s = Sprintf_d_d_d f row col \<and> availableAt r vt f row col \<and>
                 (\<forall>f' row' col'. availableAt r vt f' row' col'
                     \<longrightarrow> lexLe (f, row, col) (f', row', col')))
          | Inl e \<Rightarrow> e = ErrNoAvailableSpot \<and> (\<forall>f row col. \<not> availableAt r vt f row col)) \<and>
         (sameGrid r r' \<longrightarrow> FindAvailableSpot r' vt = FindAvailableSpot r vt)"
  using FindAvailableSpot_spec [OF assms, of vt] findFloor_sameGrid [of r r' vt 0]
  by (simp add: FindAvailableSpot_def)


theorem FindAvailableSpot_first_in_scan_order_witness:
  "wellFormed smallLot \<and>
   FindAvailableSpot smallLot ''Bicycle'' = Inr ''0-0-0'' \<and>
   (\<exists>f row col. ''0-0-0'' = Sprintf_d_d_d f row col \<and> availableAt smallLot ''Bicycle'' f row col \<and>
      (\<forall>f' row' col'. availableAt smallLot ''Bicycle'' f' row' col'
          \<longrightarrow> lexLe (f, row, col) (f', row', col'))) \<and>
   FindAvailableSpot smallLot ''Automobile'' = Inl ErrNoAvailableSpot \<and>
   (\<forall>f row col. \<not> availableAt smallLot ''Automobile'' f row col) \<and>
   sameGrid smallLot (smallLot\<lparr>vehicleHistory := [''BC9'' \<mapsto> ''0-0-1'']\<rparr>) \<and>
   FindAvailableSpot (smallLot\<lparr>vehicleHistory := [''BC9'' \<mapsto> ''0-0-1'']\<rparr>) ''Bicycle'' =
     Inr ''0-0-0''"
proof -
  have wf: "wellFormed smallLot"
    by (simp add: wellFormed_def smallLot_def)
  have sg: "sameGrid smallLot (smallLot\<lparr>vehicleHistory := [''BC9'' \<mapsto> ''0-0-1'']\<rparr>)"
    by (simp add: sameGrid_def)
  have fa: "FindAvailableSpot smallLot ''Automobile'' = Inl ErrNoAvailableSpot"
    by (simp add: FindAvailableSpot_def findFloor.simps findRow.simps findCol.simps eval_defs
        available_def)
  from FindAvailableSpot_first_in_scan_order [OF wf, of "''Bicycle''"
      "smallLot\<lparr>vehicleHistory := [''BC9'' \<mapsto> ''0-0-1'']\<rparr>"] find_small sg
  have b: "(\<exists>f row col. ''0-0-0'' = Sprintf_d_d_d f row col \<and>
              availableAt smallLot ''Bicycle'' f row col \<and>
              (\<forall>f' row' col'. availableAt smallLot ''Bicycle'' f' row' col'
                  \<longrightarrow> lexLe (f, row, col) (f', row', col')))"
    and d: "FindAvailableSpot (smallLot\<lparr>vehicleHistory := [''BC9'' \<mapsto> ''0-0-1'']\<rparr>) ''Bicycle'' =
              Inr ''0-0-0''"
    by simp_all
  from FindAvailableSpot_first_in_scan_order [OF wf, of "''Automobile''" smallLot] fa
  have a: "\<forall>f row col. \<not> availableAt smallLot ''Automobile'' f row col"
    by simp
  from wf find_small b fa a sg d show ?thesis by simp
qed

section \<open>What a call of the service does to the repository\<close>

lemma ParkVehicle_failure_state: "ParkVehicle r s vn = (Some e, r') \<Longrightarrow> r' = r"
  by (simp add: ParkVehicle_def split: sum.splits option.splits prod.splits)

lemma Park_cases:
  "Park r vt vn =
     (case validateVehicleType vt of
        Some err \<Rightarrow> (Inl err, r)
      | None \<Rightarrow>
          if vn = [] then (Inl ErrEmptyVehicleNumber, r)
          else (case vehicleMap r vn of
                  Some cur \<Rightarrow> (Inl (ErrVehicleAlreadyParked vn cur), r)
                | None \<Rightarrow>
                    (case FindAvailableSpot r vt of
                       Inl x \<Rightarrow> (Inl ErrNoAvailableSpot, r)
                     | Inr s \<Rightarrow>
                         (case fst (ParkVehicle r s vn) of
                            Some err \<Rightarrow> (Inl err, snd (ParkVehicle r s vn))
                          | None \<Rightarrow> (Inr s, snd (ParkVehicle r s vn))))))"
  by (simp add: Park_def validateVehicleNumber_def IsVehicleParked_def
      split: option.splits sum.splits prod.splits)


lemma Park_failure_state:
  assumes "Park r vt vn = (Inl e, r')"
  shows "r' = r"
proof (cases "validateVehicleType vt")
  case (Some err)
  with assms show ?thesis by (simp add: Park_cases)
next
  case vt: None
  show ?thesis
  proof (cases "vn = []")
    case True
    with assms vt show ?thesis by (simp add: Park_cases)
  next
    case vn: False
    show ?thesis
    proof (cases "vehicleMap r vn")
      case (Some cur)
      with assms vt vn show ?thesis by (simp add: Park_cases)
    next
      case m: None
      show ?thesis
      proof (cases "FindAvailableSpot r vt")
        case (Inl x)
        with assms vt vn m show ?thesis by (simp add: Park_cases)
      next
        case (Inr s)
        show ?thesis
        proof (cases "fst (ParkVehicle r s vn)")
          case None
          with assms vt vn m Inr show ?thesis by (simp add: Park_cases)
        next
          case (Some err)
          then have "ParkVehicle r s vn = (Some err, snd (ParkVehicle r s vn))"
            by (metis prod.collapse)
          from ParkVehicle_failure_state [OF this] assms vt vn m Inr Some
          show ?thesis by (simp add: Park_cases)
        qed
      qed
    qed
  qed
qed

lemma Park_success_cases:
  assumes "Park r vt vn = (Inr s, r')"
  shows "validateVehicleType vt = None \<and> vn \<noteq> [] \<and> vehicleMap r vn = None \<and>
         FindAvailableSpot r vt = Inr s \<and> ParkVehicle r s vn = (None, r')"
proof (cases "validateVehicleType vt")
  case (Some err)
  with assms show ?thesis by (simp add: Park_cases)
next
  case vt: None
  show ?thesis
  proof (cases "vn = []")
    case True
    with assms vt show ?thesis by (simp add: Park_cases)
  next
    case vn: False
    show ?thesis
    proof (cases "vehicleMap r vn")
      case (Some cur)
      with assms vt vn show ?thesis by (simp add: Park_cases)
    next
      case m: None
      show ?thesis
      proof (cases "FindAvailableSpot r vt")
        case (Inl x)
        with assms vt vn m show ?thesis by (simp add: Park_cases)
      next
        case (Inr s')
        show ?thesis
        proof (cases "fst (ParkVehicle r s' vn)")
          case (Some err)
          with assms vt vn m Inr show ?thesis by (simp add: Park_cases)
        next
          case None
          with assms vt vn m Inr have "s' = s \<and> snd (ParkVehicle r s' vn) = r'"
            by (auto simp: Park_cases)
          then have eq: "s' = s" and sn: "snd (ParkVehicle r s' vn) = r'"
            by blast+
          from None sn have "ParkVehicle r s' vn = (None, r')"
            by (metis prod.collapse)
          with vt vn m Inr eq show ?thesis by simp
        qed
      qed
    qed
  qed
qed

lemma Unpark_cases:
  "Unpark r s vn =
     (if vn = [] then (Some ErrEmptyVehicleNumber, r)
      else (case vehicleMap r vn of
              None \<Rightarrow> (Some (ErrVehicleNotParked vn), r)
            | Some cur \<Rightarrow>
                if cur \<noteq> s then (Some (ErrVehicleNotAtSpot vn s cur), r)
                else (case parseSpotID r s of
                        Inl err \<Rightarrow> (Some err, r)
                      | Inr loc \<Rightarrow> UnparkVehicle r (fst loc) (fst (snd loc)) (snd (snd loc)) vn)))"
  by (simp add: Unpark_def validateVehicleNumber_def IsVehicleParked_def ParseSpotID_def
      split: option.splits sum.splits prod.splits)

lemma UnparkVehicle_cases:
  "UnparkVehicle r f row col vn =
     (if \<not> isValidLocation r f row col then (Some ErrInvalidLocation, r)
      else (case getSpot r f row col of
              None \<Rightarrow> (Some Panic, r)
            | Some sp \<Rightarrow>
                if \<not> (IsOccupied sp \<and> VehicleNumber sp = vn)
                then (Some (ErrVehicleNotAtSpotGrid vn f row col), r)
                else (None,
                      (setSpot r f row col (sp\<lparr>IsOccupied := False, VehicleNumber := []\<rparr>))
                      \<lparr>vehicleHistory := (vehicleHistory r)(vn \<mapsto> Sprintf_d_d_d f row col),
                       vehicleMap := (vehicleMap r)(vn := None)\<rparr>)))"
  by (simp add: UnparkVehicle_def split: option.splits)

lemma UnparkVehicle_failure_state: "UnparkVehicle r f row col vn = (Some e, r') \<Longrightarrow> r' = r"
  by (simp add: UnparkVehicle_cases split: option.splits if_splits)

lemma Unpark_failure_state:
  assumes "Unpark r s vn = (Some e, r')"
  shows "r' = r"
proof (cases "vn = []")
  case True
  with assms show ?thesis by (simp add: Unpark_cases)
next
  case vn: False
  show ?thesis
  proof (cases "vehicleMap r vn")
    case None
    with assms vn show ?thesis by (simp add: Unpark_cases)
  next
    case (Some cur)
    show ?thesis
    proof (cases "cur = s")
      case False
      with assms vn Some show ?thesis by (simp add: Unpark_cases)
    next
      case True
      show ?thesis
      proof (cases "parseSpotID r s")
        case (Inl err)
        with assms vn Some True show ?thesis by (simp add: Unpark_cases)
      next
        case (Inr loc)
        with assms vn Some True
        have "UnparkVehicle r (fst loc) (fst (snd loc)) (snd (snd loc)) vn = (Some e, r')"
          by (simp add: Unpark_cases)
        then show ?thesis by (rule UnparkVehicle_failure_state)
      qed
    qed
  qed
qed

lemma Unpark_success_state:
  assumes "Unpark r s vn = (None, r')"
  shows "\<exists>f row col sp.
           vn \<noteq> [] \<and> vehicleMap r vn = Some s \<and> parseSpotID r s = Inr (f, row, col) \<and>
           isValidLocation r f row col \<and>
           getSpot r f row col = Some sp \<and> IsOccupied sp \<and> VehicleNumber sp = vn \<and>
           r' = (setSpot r f row col (sp\<lparr>IsOccupied := False, VehicleNumber := []\<rparr>))
                  \<lparr>vehicleHistory := (vehicleHistory r)(vn \<mapsto> Sprintf_d_d_d f row col),
                   vehicleMap := (vehicleMap r)(vn := None)\<rparr>"
proof (cases "vn = []")
  case True
  with assms show ?thesis by (simp add: Unpark_cases)
next
  case vn: False
  show ?thesis
  proof (cases "vehicleMap r vn")
    case None
    with assms vn show ?thesis by (simp add: Unpark_cases)
  next
    case (Some cur)
    show ?thesis
    proof (cases "cur = s")
      case False
      with assms vn Some show ?thesis by (simp add: Unpark_cases)
    next
      case True
      show ?thesis
      proof (cases "parseSpotID r s")
        case (Inl err)
        with assms vn Some True show ?thesis by (simp add: Unpark_cases)
      next
        case (Inr loc)
        obtain f row col where loc: "loc = (f, row, col)" by (cases loc) auto
        with assms vn Some True Inr
        have u: "UnparkVehicle r f row col vn = (None, r')"
          by (simp add: Unpark_cases)
        then have v: "isValidLocation r f row col"
          by (simp add: UnparkVehicle_cases split: if_splits)
        with u obtain sp where sp: "getSpot r f row col = Some sp"
          by (cases "getSpot r f row col") (simp_all add: UnparkVehicle_cases)
        with u v have o: "IsOccupied sp \<and> VehicleNumber sp = vn"
          by (simp add: UnparkVehicle_cases split: if_splits)
        with u v sp have "r' = (setSpot r f row col (sp\<lparr>IsOccupied := False, VehicleNumber := []\<rparr>))
                  \<lparr>vehicleHistory := (vehicleHistory r)(vn \<mapsto> Sprintf_d_d_d f row col),
                   vehicleMap := (vehicleMap r)(vn := None)\<rparr>"
          by (simp add: UnparkVehicle_cases)
        with vn Some True Inr loc v sp o show ?thesis by blast
      qed
    qed
  qed
qed

lemma ConfigureSpot_cases:
  "Service_ConfigureSpot r f row col code =
     (if \<not> isValidLocation r f row col then (Some ErrInvalidLocation, r)
      else (case getSpot r f row col of
              None \<Rightarrow> (Some Panic, r)
            | Some sp \<Rightarrow>
                if IsOccupied sp then (Some ErrOccupiedReconfigure, r)
                else (case spotTypeOf code of
                        None \<Rightarrow> (Some ErrInvalidSpotType, r)
                      | Some ta \<Rightarrow>
                          (None, setSpot r f row col
                                   (sp\<lparr>VehicleType := fst ta, IsActive := snd ta\<rparr>)))))"
  by (simp add: Service_ConfigureSpot_def Repo_ConfigureSpot_def IsValidLocation_def
      IsSpotOccupied_def split: option.splits sum.splits prod.splits)

lemma ConfigureSpot_failure_state:
  "Service_ConfigureSpot r f row col code = (Some e, r') \<Longrightarrow> r' = r"
  by (simp add: ConfigureSpot_cases split: option.splits if_splits)

lemma ConfigureSpot_success_state:
  assumes "Service_ConfigureSpot r f row col code = (None, r')"
  shows "\<exists>sp vt act.
           isValidLocation r f row col \<and> getSpot r f row col = Some sp \<and> \<not> IsOccupied sp \<and>
           spotTypeOf code = Some (vt, act) \<and>
           r' = setSpot r f row col (sp\<lparr>VehicleType := vt, IsActive := act\<rparr>)"
proof -
  from assms have v: "isValidLocation r f row col"
    by (simp add: ConfigureSpot_cases split: if_splits)
  with assms obtain sp where sp: "getSpot r f row col = Some sp"
    by (cases "getSpot r f row col") (simp_all add: ConfigureSpot_cases)
  with assms v have o: "\<not> IsOccupied sp"
    by (simp add: ConfigureSpot_cases split: if_splits)
  with assms v sp obtain ta where ta: "spotTypeOf code = Some ta"
    by (cases "spotTypeOf code") (simp_all add: ConfigureSpot_cases)
  with assms v sp o have "r' = setSpot r f row col (sp\<lparr>VehicleType := fst ta, IsActive := snd ta\<rparr>)"
    by (simp add: ConfigureSpot_cases)
  with v sp o ta show ?thesis
    by (intro exI [of _ sp] exI [of _ "fst ta"] exI [of _ "snd ta"]) simp
qed

section \<open>The invariant of a lot in service\<close>

lemma valid_bounds:
  assumes "wellFormed r" "isValidLocation r f row col"
  shows "0 \<le> f" "f < 2 ^ 63" "0 \<le> row" "row < 2 ^ 63" "0 \<le> col" "col < 2 ^ 63"
  using assms by (simp_all add: wellFormed_def isValidLocation_def)

lemma parseSpotID_Sprintf:
  assumes "wellFormed r" "isValidLocation r f row col"
  shows "parseSpotID r (Sprintf_d_d_d f row col) = Inr (f, row, col)"
proof -
  have "Sscanf_d_d_d (Sprintf_d_d_d f row col) = Some (f, row, col)"
    by (rule Sscanf_Sprintf [OF valid_bounds [OF assms]])
  with assms(2) show ?thesis
    by (simp add: parseSpotID_def)
qed

lemma Sprintf_inject:
  assumes "wellFormed r" "isValidLocation r f row col" "isValidLocation r f' row' col'"
    and "Sprintf_d_d_d f row col = Sprintf_d_d_d f' row' col'"
  shows "f = f' \<and> row = row' \<and> col = col'"
proof -
  have "(Inr (f, row, col) :: error + int \<times> int \<times> int) = parseSpotID r (Sprintf_d_d_d f row col)"
    by (simp only: parseSpotID_Sprintf [OF assms(1,2)])
  also have "\<dots> = parseSpotID r (Sprintf_d_d_d f' row' col')"
    by (simp only: assms(4))
  also have "\<dots> = Inr (f', row', col')"
    by (rule parseSpotID_Sprintf [OF assms(1,3)])
  finally show ?thesis by simp
qed

lemma parseSpotID_valid:
  "parseSpotID r s = Inr (f, row, col) \<Longrightarrow> isValidLocation r f row col"
  by (simp add: parseSpotID_def split: option.splits if_splits prod.splits)

lemma Park_success_state:
  assumes wf: "wellFormed r" and p: "Park r vt vn = (Inr s, r')"
  shows "\<exists>f row col sp.
           s = Sprintf_d_d_d f row col \<and> isValidLocation r f row col \<and>
           getSpot r f row col = Some sp \<and> available sp vt \<and>
           vn \<noteq> [] \<and> vehicleMap r vn = None \<and> validateVehicleType vt = None \<and>
           r' = (setSpot r f row col (sp\<lparr>IsOccupied := True, VehicleNumber := vn\<rparr>))
                  \<lparr>vehicleMap := (vehicleMap r)(vn \<mapsto> s)\<rparr>"
proof -
  from Park_success_cases [OF p] have vt: "validateVehicleType vt = None" and vn: "vn \<noteq> []"
    and m: "vehicleMap r vn = None" and fa: "FindAvailableSpot r vt = Inr s"
    and pv: "ParkVehicle r s vn = (None, r')"
    by simp_all
  from FindAvailableSpot_spec [OF wf, of vt] fa
  obtain f row col where s: "s = Sprintf_d_d_d f row col" and a: "availableAt r vt f row col"
    by auto
  from a have v: "isValidLocation r f row col" by (simp add: availableAt_def)
  from getSpot_valid [OF wf v] obtain sp where sp: "getSpot r f row col = Some sp" by blast
  from a sp have av: "available sp vt" by (simp add: availableAt_def)
  from pv parseSpotID_Sprintf [OF wf v] s sp
  have "r' = (setSpot r f row col (sp\<lparr>IsOccupied := True, VehicleNumber := vn\<rparr>))
                  \<lparr>vehicleMap := (vehicleMap r)(vn \<mapsto> s)\<rparr>"
    by (simp add: ParkVehicle_def)
  with s v sp av vn m vt show ?thesis by blast
qed

lemma occupantAt_setSpot:
  assumes "wellFormed r" "isValidLocation r f row col"
  shows "occupantAt (setSpot r f row col sp) f' row' col' =
           (if f' = f \<and> row' = row \<and> col' = col
            then (if IsOccupied sp then Some (VehicleNumber sp) else None)
            else occupantAt r f' row' col')"
  using assms(2)
  by (simp add: occupantAt_def isValidLocation_setSpot getSpot_setSpot [OF assms])

lemma occupantAt_maps:
  "occupantAt (r\<lparr>vehicleMap := m\<rparr>) f row col = occupantAt r f row col"
  "occupantAt (r\<lparr>vehicleHistory := h\<rparr>) f row col = occupantAt r f row col"
  by (simp_all add: occupantAt_def map_update_grid)

lemma occupantAt_Some:
  "occupantAt r f row col = Some v \<longleftrightarrow>
     isValidLocation r f row col \<and>
     (\<exists>sp. getSpot r f row col = Some sp \<and> IsOccupied sp \<and> VehicleNumber sp = v)"
  by (auto simp: occupantAt_def split: option.splits)

lemma gridInvariant_setSpot:
  assumes "wellFormed r" "isValidLocation r f row col" "gridInvariant r" "spotInvariant sp"
  shows "gridInvariant (setSpot r f row col sp)"
  using assms(3,4)
  by (simp add: gridInvariant_def getSpot_setSpot [OF assms(1,2)])

lemma gridInvariant_maps:
  "gridInvariant (r\<lparr>vehicleMap := m\<rparr>) = gridInvariant r"
  "gridInvariant (r\<lparr>vehicleHistory := h\<rparr>) = gridInvariant r"
  by (simp_all add: gridInvariant_def map_update_grid)


lemma lotInvariant_init:
  assumes "Service_InitializeParkingLot NewParkingRepository fl rw cl g = (None, r)"
  shows "lotInvariant r"
proof -
  from assms have b: "fl \<le> 8" "rw \<le> 1000" "cl \<le> 1000"
    and i: "Repo_InitializeParkingLot NewParkingRepository fl rw cl g = (None, r)"
    by (simp_all add: Service_InitializeParkingLot_def split: if_splits)
  from i have r: "r = NewParkingRepository\<lparr>floors := fl, rows := rw, columns := cl, gates := g,
                       spots := makeGrid fl rw cl\<rparr>"
    by (simp add: Repo_InitializeParkingLot_def Let_def split: if_splits)
  then have sp: "spots r = makeGrid fl rw cl" and d: "floors r = fl" "rows r = rw" "columns r = cl"
    and m: "vehicleMap r = Map.empty"
    by (simp_all add: NewParkingRepository_def)
  have wf: "wellFormed r"
    using b by (simp add: wellFormed_def sp d makeGrid_def list_all_length)
  have gi: "gridInvariant r"
    unfolding gridInvariant_def
  proof (intro allI impI)
    fix f row col spot
    assume "getSpot r f row col = Some spot"
    from getSpot_makeGrid [OF sp this] show "spotInvariant spot"
      by (simp add: spotInvariant_def newSpot_def)
  qed
  have no: "occupantAt r f row col = None" for f row col
  proof (cases "getSpot r f row col")
    case None
    then show ?thesis by (simp add: occupantAt_def)
  next
    case (Some spot)
    from getSpot_makeGrid [OF sp Some] Some show ?thesis
      by (simp add: occupantAt_def newSpot_def)
  qed
  have mc: "mapConsistent r"
    by (simp add: mapConsistent_def m no)
  from wf gi mc show ?thesis by (simp add: lotInvariant_def)
qed

lemma lotInvariant_Park:
  assumes inv: "lotInvariant r" and p: "Park r vt vn = (res, r')"
  shows "lotInvariant r'"
proof (cases res)
  case (Inl e)
  with p Park_failure_state have "r' = r" by blast
  with inv show ?thesis by simp
next
  case (Inr s)
  from inv have wf: "wellFormed r" and gi: "gridInvariant r" and mc: "mapConsistent r"
    by (simp_all add: lotInvariant_def)
  from Park_success_state [OF wf p [unfolded Inr]]
  obtain f row col sp where s: "s = Sprintf_d_d_d f row col" and v: "isValidLocation r f row col"
    and sp: "getSpot r f row col = Some sp" and av: "available sp vt" and vn: "vn \<noteq> []"
    and m: "vehicleMap r vn = None"
    and r': "r' = (setSpot r f row col (sp\<lparr>IsOccupied := True, VehicleNumber := vn\<rparr>))
                  \<lparr>vehicleMap := (vehicleMap r)(vn \<mapsto> s)\<rparr>"
    by blast
  let ?sp = "sp\<lparr>IsOccupied := True, VehicleNumber := vn\<rparr>"
  have wf': "wellFormed r'"
    by (simp add: r' map_update_grid wellFormed_setSpot [OF wf])
  have "spotInvariant ?sp"
    using av vn by (simp add: spotInvariant_def available_def)
  then have gi': "gridInvariant r'"
    by (simp add: r' gridInvariant_maps gridInvariant_setSpot [OF wf v gi])
  have occ: "occupantAt r' f' row' col' =
               (if f' = f \<and> row' = row \<and> col' = col then Some vn else occupantAt r f' row' col')"
    for f' row' col'
    by (simp add: r' occupantAt_maps occupantAt_setSpot [OF wf v])
  have free: "occupantAt r f row col = None"
    using v sp av by (simp add: occupantAt_def available_def)
  have nobody: "occupantAt r f' row' col' \<noteq> Some vn" for f' row' col'
  proof
    assume "occupantAt r f' row' col' = Some vn"
    with mc have "vehicleMap r vn = Some (Sprintf_d_d_d f' row' col')"
      by (auto simp: mapConsistent_def)
    with m show False by simp
  qed
  have mc': "mapConsistent r'"
    unfolding mapConsistent_def
  proof (intro allI iffI)
    fix v' t
    assume a: "vehicleMap r' v' = Some t"
    show "\<exists>f' row' col'. t = Sprintf_d_d_d f' row' col' \<and> occupantAt r' f' row' col' = Some v'"
    proof (cases "v' = vn")
      case True
      with a have "t = s" by (simp add: r')
      with s True occ [of f row col] show ?thesis
        by (intro exI [of _ f] exI [of _ row] exI [of _ col]) simp
    next
      case False
      with a have "vehicleMap r v' = Some t" by (simp add: r')
      with mc obtain f' row' col' where t: "t = Sprintf_d_d_d f' row' col'"
        and o: "occupantAt r f' row' col' = Some v'"
        by (auto simp: mapConsistent_def)
      from o free have "\<not> (f' = f \<and> row' = row \<and> col' = col)" by auto
      with o occ [of f' row' col'] have "occupantAt r' f' row' col' = Some v'" by auto
      with t show ?thesis by blast
    qed
  next
    fix v' t
    assume "\<exists>f' row' col'. t = Sprintf_d_d_d f' row' col' \<and> occupantAt r' f' row' col' = Some v'"
    then obtain f' row' col' where t: "t = Sprintf_d_d_d f' row' col'"
      and o: "occupantAt r' f' row' col' = Some v'" by blast
    show "vehicleMap r' v' = Some t"
    proof (cases "f' = f \<and> row' = row \<and> col' = col")
      case True
      with o occ [of f' row' col'] have "v' = vn" by auto
      with True t s show ?thesis by (simp add: r')
    next
      case False
      with o occ [of f' row' col'] have o': "occupantAt r f' row' col' = Some v'" by auto
      with mc t have "vehicleMap r v' = Some t" by (auto simp: mapConsistent_def)
      moreover from o' nobody have "v' \<noteq> vn" by auto
      ultimately show ?thesis by (simp add: r')
    qed
  qed
  from wf' gi' mc' show ?thesis by (simp add: lotInvariant_def)
qed


lemma mapConsistent_spot:
  assumes wf: "wellFormed r" and mc: "mapConsistent r" and m: "vehicleMap r vn = Some s"
  shows "\<exists>f row col. s = Sprintf_d_d_d f row col \<and> isValidLocation r f row col \<and>
           occupantAt r f row col = Some vn \<and> parseSpotID r s = Inr (f, row, col)"
proof -
  from mc m obtain f row col where s: "s = Sprintf_d_d_d f row col"
    and o: "occupantAt r f row col = Some vn"
    by (auto simp: mapConsistent_def)
  from o have v: "isValidLocation r f row col" by (simp add: occupantAt_Some)
  from parseSpotID_Sprintf [OF wf v] s o v show ?thesis by blast
qed

lemma lotInvariant_Unpark:
  assumes inv: "lotInvariant r" and u: "Unpark r s vn = (err, r')"
  shows "lotInvariant r'"
proof (cases err)
  case (Some e)
  with u Unpark_failure_state have "r' = r" by blast
  with inv show ?thesis by simp
next
  case None
  from inv have wf: "wellFormed r" and gi: "gridInvariant r" and mc: "mapConsistent r"
    by (simp_all add: lotInvariant_def)
  from Unpark_success_state [OF u [unfolded None]]
  obtain f row col sp where vn: "vn \<noteq> []" and m: "vehicleMap r vn = Some s"
    and ps: "parseSpotID r s = Inr (f, row, col)" and v: "isValidLocation r f row col"
    and sp: "getSpot r f row col = Some sp" and o: "IsOccupied sp" "VehicleNumber sp = vn"
    and r': "r' = (setSpot r f row col (sp\<lparr>IsOccupied := False, VehicleNumber := []\<rparr>))
                  \<lparr>vehicleHistory := (vehicleHistory r)(vn \<mapsto> Sprintf_d_d_d f row col),
                   vehicleMap := (vehicleMap r)(vn := None)\<rparr>"
    by blast
  from mapConsistent_spot [OF wf mc m] ps have s: "s = Sprintf_d_d_d f row col"
    by auto
  let ?sp = "sp\<lparr>IsOccupied := False, VehicleNumber := []\<rparr>"
  have wf': "wellFormed r'"
    by (simp add: r' map_update_grid wellFormed_setSpot [OF wf])
  have "spotInvariant ?sp"
    by (simp add: spotInvariant_def)
  then have gi': "gridInvariant r'"
    by (simp add: r' gridInvariant_maps gridInvariant_setSpot [OF wf v gi])
  have occ: "occupantAt r' f' row' col' =
               (if f' = f \<and> row' = row \<and> col' = col then None else occupantAt r f' row' col')"
    for f' row' col'
    by (simp add: r' occupantAt_maps occupantAt_setSpot [OF wf v])
  have here: "occupantAt r f row col = Some vn"
    using v sp o by (simp add: occupantAt_def)
  have mc': "mapConsistent r'"
    unfolding mapConsistent_def
  proof (intro allI iffI)
    fix v' t
    assume a: "vehicleMap r' v' = Some t"
    then have ne: "v' \<noteq> vn" and a': "vehicleMap r v' = Some t"
      by (simp_all add: r' split: if_splits)
    from mc a' obtain f' row' col' where t: "t = Sprintf_d_d_d f' row' col'"
      and o': "occupantAt r f' row' col' = Some v'"
      by (auto simp: mapConsistent_def)
    from o' here ne have "\<not> (f' = f \<and> row' = row \<and> col' = col)" by auto
    with o' occ [of f' row' col'] have "occupantAt r' f' row' col' = Some v'" by auto
    with t show "\<exists>f' row' col'. t = Sprintf_d_d_d f' row' col' \<and> occupantAt r' f' row' col' = Some v'"
      by blast
  next
    fix v' t
    assume "\<exists>f' row' col'. t = Sprintf_d_d_d f' row' col' \<and> occupantAt r' f' row' col' = Some v'"
    then obtain f' row' col' where t: "t = Sprintf_d_d_d f' row' col'"
      and o1: "occupantAt r' f' row' col' = Some v'" by blast
    from o1 occ [of f' row' col'] have other: "\<not> (f' = f \<and> row' = row \<and> col' = col)"
      and o2: "occupantAt r f' row' col' = Some v'"
      by (auto split: if_splits)
    from mc t o2 have a: "vehicleMap r v' = Some t" by (auto simp: mapConsistent_def)
    have "v' \<noteq> vn"
    proof
      assume "v' = vn"
      with a m have "t = s" by simp
      with t s have "Sprintf_d_d_d f' row' col' = Sprintf_d_d_d f row col" by simp
      moreover from o2 have "isValidLocation r f' row' col'" by (simp add: occupantAt_Some)
      ultimately have "f' = f \<and> row' = row \<and> col' = col"
        using Sprintf_inject [OF wf _ v] by blast
      with other show False by simp
    qed
    with a show "vehicleMap r' v' = Some t" by (simp add: r')
  qed
  from wf' gi' mc' show ?thesis by (simp add: lotInvariant_def)
qed

lemma lotInvariant_ConfigureSpot:
  assumes inv: "lotInvariant r" and c: "Service_ConfigureSpot r f row col code = (err, r')"
  shows "lotInvariant r'"
proof (cases err)
  case (Some e)
  with c ConfigureSpot_failure_state have "r' = r" by blast
  with inv show ?thesis by simp
next
  case None
  from inv have wf: "wellFormed r" and gi: "gridInvariant r" and mc: "mapConsistent r"
    by (simp_all add: lotInvariant_def)
  from ConfigureSpot_success_state [OF c [unfolded None]]
  obtain sp vt act where v: "isValidLocation r f row col" and sp: "getSpot r f row col = Some sp"
    and o: "\<not> IsOccupied sp"
    and r': "r' = setSpot r f row col (sp\<lparr>VehicleType := vt, IsActive := act\<rparr>)"
    by blast
  from gi sp have "spotInvariant sp" by (simp add: gridInvariant_def)
  with o have "spotInvariant (sp\<lparr>VehicleType := vt, IsActive := act\<rparr>)"
    by (simp add: spotInvariant_def)
  then have gi': "gridInvariant r'"
    by (simp add: r' gridInvariant_setSpot [OF wf v gi])
  have wf': "wellFormed r'"
    by (simp add: r' wellFormed_setSpot [OF wf])
  have free: "occupantAt r f row col = None"
    using v sp o by (simp add: occupantAt_def)
  have occ: "occupantAt r' f' row' col' = occupantAt r f' row' col'" for f' row' col'
    using o free by (simp add: r' occupantAt_setSpot [OF wf v])
  have "vehicleMap r' = vehicleMap r" by (simp add: r' setSpot_fields)
  with mc occ have mc': "mapConsistent r'" by (simp add: mapConsistent_def)
  from wf' gi' mc' show ?thesis by (simp add: lotInvariant_def)
qed

lemma reachable_lotInvariant: "reachable r \<Longrightarrow> lotInvariant r"
proof (induction rule: reachable.induct)
  case (initialized fl rw cl g r)
  then show ?case by (rule lotInvariant_init)
next
  case (parked r vehicleType vehicleNumber res r')
  then show ?case using lotInvariant_Park by blast
next
  case (unparked r spotID vehicleNumber err r')
  then show ?case using lotInvariant_Unpark by blast
next
  case (configured r floor row column spotType err r')
  then show ?case using lotInvariant_ConfigureSpot by blast
qed

section \<open>Properties of a lot in service\<close>

lemma reachable_getSpot:
  assumes "reachable r" "isValidLocation r f row col"
  shows "\<exists>spot. getSpot r f row col = Some spot \<and> spotInvariant spot"
proof -
  from reachable_lotInvariant [OF assms(1)] have wf: "wellFormed r" and gi: "gridInvariant r"
    by (simp_all add: lotInvariant_def)
  from getSpot_valid [OF wf assms(2)] gi show ?thesis
    by (simp add: gridInvariant_def)
qed

text \<open>
  Claim C7. In every state of a lot in service, the spot at every in-bounds
  coordinate is occupied if and only if its occupant's vehicle number is not
  empty, and a spot that is not active is not occupied.
\<close>

theorem reachable_spot_invariant:
  assumes "reachable r" "isValidLocation r f row col"
  shows "\<exists>spot. getSpot r f row col = Some spot \<and>
           (IsOccupied spot \<longleftrightarrow> VehicleNumber spot \<noteq> []) \<and>
           (\<not> IsActive spot \<longrightarrow> \<not> IsOccupied spot)"
  using reachable_getSpot [OF assms] by (simp add: spotInvariant_def)

theorem reachable_spot_invariant_witness:
  "reachable smallLotParked \<and> isValidLocation smallLotParked 0 0 0 \<and>
   (\<exists>spot. getSpot smallLotParked 0 0 0 = Some spot \<and>
      (IsOccupied spot \<longleftrightarrow> VehicleNumber spot \<noteq> []) \<and>
      (\<not> IsActive spot \<longrightarrow> \<not> IsOccupied spot)) \<and>
   getSpot smallLotParked 0 0 0 = Some (bicycleSpot 0 True ''BC1'')"
proof -
  have v: "isValidLocation smallLotParked 0 0 0"
    by (simp add: isValidLocation_def smallLotParked_def)
  have g: "getSpot smallLotParked 0 0 0 = Some (bicycleSpot 0 True ''BC1'')"
    by (simp add: getSpot_def sliceIndex_def smallLotParked_def)
  have e: "\<exists>spot. getSpot smallLotParked 0 0 0 = Some spot \<and>
      (IsOccupied spot \<longleftrightarrow> VehicleNumber spot \<noteq> []) \<and>
      (\<not> IsActive spot \<longrightarrow> \<not> IsOccupied spot)"
    by (rule reachable_spot_invariant [OF smallLotParked_reachable v])
  from smallLotParked_reachable v e g show ?thesis by blast
qed

text \<open>
  As long as the calls run one after the other (the lot is initialized once,
  then changed by whole calls of \<open>Park\<close>, \<open>Unpark\<close> and \<open>ConfigureSpot\<close>), the
  current map takes a vehicle to a spot identifier exactly when the spot with
  that identifier is occupied by that vehicle. So no two vehicles are mapped
  to the same spot, and the occupant of every occupied spot is a key of the
  map, mapped to that spot.
\<close>

lemma serial_map_consistent:
  assumes "reachable r"
  shows "(vehicleMap r v = Some s \<longleftrightarrow>
            (\<exists>f row col. s = Sprintf_d_d_d f row col \<and> occupantAt r f row col = Some v)) \<and>
         (vehicleMap r v = Some s \<and> vehicleMap r v' = Some s \<longrightarrow> v = v') \<and>
         (occupantAt r f row col = Some v \<longrightarrow> vehicleMap r v = Some (Sprintf_d_d_d f row col))"
proof -
  from reachable_lotInvariant [OF assms] have wf: "wellFormed r" and mc: "mapConsistent r"
    by (simp_all add: lotInvariant_def)
  from mc have a: "vehicleMap r v = Some s \<longleftrightarrow>
            (\<exists>f row col. s = Sprintf_d_d_d f row col \<and> occupantAt r f row col = Some v)"
    by (simp add: mapConsistent_def)
  have b: "v = v'" if "vehicleMap r v = Some s" "vehicleMap r v' = Some s"
  proof -
    from mapConsistent_spot [OF wf mc that(1)] obtain f row col
      where 1: "occupantAt r f row col = Some v" "parseSpotID r s = Inr (f, row, col)" by blast
    from mapConsistent_spot [OF wf mc that(2)] obtain f' row' col'
      where 2: "occupantAt r f' row' col' = Some v'" "parseSpotID r s = Inr (f', row', col')" by blast
    from 1 2 show ?thesis by simp
  qed
  from mc have c: "occupantAt r f row col = Some v \<longrightarrow>
                     vehicleMap r v = Some (Sprintf_d_d_d f row col)"
    by (auto simp: mapConsistent_def)
  from a b c show ?thesis by blast
qed

lemma serial_map_consistent_example:
  "reachable smallLotParked \<and>
   vehicleMap smallLotParked ''BC1'' = Some ''0-0-0'' \<and>
   (\<exists>f row col. ''0-0-0'' = Sprintf_d_d_d f row col \<and>
      occupantAt smallLotParked f row col = Some ''BC1'') \<and>
   occupantAt smallLotParked 0 0 0 = Some ''BC1'' \<and>
   vehicleMap smallLotParked ''BC1'' = Some (Sprintf_d_d_d 0 0 0)"
proof -
  have m: "vehicleMap smallLotParked ''BC1'' = Some ''0-0-0''"
    by (simp add: smallLotParked_def)
  have o: "occupantAt smallLotParked 0 0 0 = Some ''BC1''"
    by (simp add: occupantAt_def isValidLocation_def getSpot_def sliceIndex_def
        smallLotParked_def bicycleSpot_def)
  note t = serial_map_consistent [OF smallLotParked_reachable,
      of "''BC1''" "''0-0-0''" "''BC1''" 0 0 0]
  from t m have e: "\<exists>f row col. ''0-0-0'' = Sprintf_d_d_d f row col \<and>
      occupantAt smallLotParked f row col = Some ''BC1''"
    by blast
  from t o have k: "vehicleMap smallLotParked ''BC1'' = Some (Sprintf_d_d_d 0 0 0)"
    by blast
  from smallLotParked_reachable m e o k show ?thesis by blast
qed


text \<open>
  Claim C1. In every state of a lot in service, a call of \<open>Park\<close> that succeeds
  was made with one of the three vehicle types and a non-empty vehicle number
  that was not parked, and returns the identifier of an in-bounds spot that,
  before the call, was active, configured with the requested type and
  unoccupied. After the call \<open>IsSpotOccupied\<close> is true of that spot and
  \<open>SearchVehicle\<close> returns the identifier together with \<open>true\<close>.
\<close>

theorem Park_returns_allocatable_spot:
  assumes "reachable r" "Park r vehicleType vehicleNumber = (Inr spotID, r')"
  shows "\<exists>f row col spot.
           spotID = Sprintf_d_d_d f row col \<and> isValidLocation r f row col \<and>
           getSpot r f row col = Some spot \<and>
           IsActive spot \<and> VehicleType spot = vehicleType \<and> \<not> IsOccupied spot \<and>
           IsSpotOccupied r' f row col = Inr True \<and>
           Service_SearchVehicle r' vehicleNumber = Inr (spotID, True) \<and>
           vehicleType \<in> {Bicycle, Motorcycle, Automobile} \<and>
           vehicleNumber \<noteq> [] \<and> vehicleMap r vehicleNumber = None"
proof -
  from reachable_lotInvariant [OF assms(1)] have wf: "wellFormed r"
    by (simp add: lotInvariant_def)
  from Park_success_state [OF wf assms(2)]
  obtain f row col sp where s: "spotID = Sprintf_d_d_d f row col"
    and v: "isValidLocation r f row col"
    and sp: "getSpot r f row col = Some sp" and av: "available sp vehicleType"
    and vn: "vehicleNumber \<noteq> []"
    and m: "vehicleMap r vehicleNumber = None" and vt: "validateVehicleType vehicleType = None"
    and r': "r' = (setSpot r f row col (sp\<lparr>IsOccupied := True, VehicleNumber := vehicleNumber\<rparr>))
                  \<lparr>vehicleMap := (vehicleMap r)(vehicleNumber \<mapsto> spotID)\<rparr>"
    by blast
  have v': "isValidLocation r' f row col"
    using v by (simp add: r' map_update_grid isValidLocation_setSpot)
  have g': "getSpot r' f row col = Some (sp\<lparr>IsOccupied := True, VehicleNumber := vehicleNumber\<rparr>)"
    by (simp add: r' map_update_grid getSpot_setSpot [OF wf v])
  have occ: "IsSpotOccupied r' f row col = Inr True"
    using v' g' by (simp add: IsSpotOccupied_def)
  have "vehicleMap r' vehicleNumber = Some spotID"
    by (simp add: r')
  with vn have sv: "Service_SearchVehicle r' vehicleNumber = Inr (spotID, True)"
    by (simp add: Service_SearchVehicle_def validateVehicleNumber_def Repo_SearchVehicle_def)
  from vt have ty: "vehicleType \<in> {Bicycle, Motorcycle, Automobile}"
    by (simp add: validateVehicleType_def split: if_splits)
  from av have "IsActive sp \<and> VehicleType sp = vehicleType \<and> \<not> IsOccupied sp"
    by (simp add: available_def)
  with s v sp occ sv ty vn m show ?thesis by blast
qed

theorem Park_returns_allocatable_spot_witness:
  "reachable smallLot \<and> Park smallLot Bicycle ''BC1'' = (Inr ''0-0-0'', smallLotParked) \<and>
   (\<exists>f row col spot.
      ''0-0-0'' = Sprintf_d_d_d f row col \<and> isValidLocation smallLot f row col \<and>
      getSpot smallLot f row col = Some spot \<and>
      IsActive spot \<and> VehicleType spot = Bicycle \<and> \<not> IsOccupied spot \<and>
      IsSpotOccupied smallLotParked f row col = Inr True \<and>
      Service_SearchVehicle smallLotParked ''BC1'' = Inr (''0-0-0'', True) \<and>
      Bicycle \<in> {Bicycle, Motorcycle, Automobile} \<and>
      ''BC1'' \<noteq> [] \<and> vehicleMap smallLot ''BC1'' = None)"
proof -
  note t = Park_returns_allocatable_spot [OF smallLot_reachable park_small]
  from smallLot_reachable park_small t show ?thesis by blast
qed

lemma ParkVehicle_error:
  "ParkVehicle r s vn = (Some e, r') \<Longrightarrow> e = ErrInvalidSpotID \<or> e = ErrInvalidLocation \<or> e = Panic"
  by (auto simp: ParkVehicle_def parseSpotID_def split: sum.splits option.splits prod.splits if_splits)

lemma Park_not_already_parked:
  assumes "vehicleMap r vn = None"
  shows "fst (Park r vt vn) \<noteq> Inl (ErrVehicleAlreadyParked a b)"
proof (cases "validateVehicleType vt")
  case (Some err)
  then have "err = ErrInvalidVehicleType"
    by (simp add: validateVehicleType_def split: if_splits)
  with Some show ?thesis by (simp add: Park_cases)
next
  case vt: None
  show ?thesis
  proof (cases "vn = []")
    case True
    with vt show ?thesis by (simp add: Park_cases)
  next
    case vn: False
    show ?thesis
    proof (cases "FindAvailableSpot r vt")
      case (Inl x)
      with assms vt vn show ?thesis by (simp add: Park_cases)
    next
      case (Inr s)
      show ?thesis
      proof (cases "fst (ParkVehicle r s vn)")
        case None
        with assms vt vn Inr show ?thesis by (simp add: Park_cases)
      next
        case (Some err)
        then have "ParkVehicle r s vn = (Some err, snd (ParkVehicle r s vn))"
          by (metis prod.collapse)
        from ParkVehicle_error [OF this] assms vt vn Inr Some show ?thesis
          by (auto simp: Park_cases)
      qed
    qed
  qed
qed

text \<open>
  As long as the calls run one after the other, \<open>Unpark\<close> with the spot the
  current map gives for a vehicle succeeds. Afterwards \<open>SearchVehicle\<close> returns
  the spot together with \<open>false\<close>, the spot is unoccupied, and no call of \<open>Park\<close>
  for the vehicle is rejected with \<open>VehicleAlreadyParked\<close>.
\<close>

lemma serial_Unpark_succeeds:
  assumes "reachable r" "vehicleMap r vehicleNumber = Some spotID"
  shows "\<exists>r' f row col.
           Unpark r spotID vehicleNumber = (None, r') \<and>
           Service_SearchVehicle r' vehicleNumber = Inr (spotID, False) \<and>
           parseSpotID r spotID = Inr (f, row, col) \<and>
           IsSpotOccupied r' f row col = Inr False \<and>
           (\<forall>vehicleType current.
              fst (Park r' vehicleType vehicleNumber)
                \<noteq> Inl (ErrVehicleAlreadyParked vehicleNumber current))"
proof -
  from reachable_lotInvariant [OF assms(1)] have wf: "wellFormed r"
    and gi: "gridInvariant r" and mc: "mapConsistent r"
    by (simp_all add: lotInvariant_def)
  from mapConsistent_spot [OF wf mc assms(2)]
  obtain f row col where s: "spotID = Sprintf_d_d_d f row col"
    and v: "isValidLocation r f row col"
    and o: "occupantAt r f row col = Some vehicleNumber"
    and ps: "parseSpotID r spotID = Inr (f, row, col)"
    by blast
  from o obtain sp where sp: "getSpot r f row col = Some sp" and oc: "IsOccupied sp"
    and nm: "VehicleNumber sp = vehicleNumber"
    by (auto simp: occupantAt_Some)
  from gi sp have "spotInvariant sp" by (simp add: gridInvariant_def)
  with oc nm have vn: "vehicleNumber \<noteq> []" by (simp add: spotInvariant_def)
  define r' where "r' = (setSpot r f row col (sp\<lparr>IsOccupied := False, VehicleNumber := []\<rparr>))
                  \<lparr>vehicleHistory := (vehicleHistory r)(vehicleNumber \<mapsto> Sprintf_d_d_d f row col),
                   vehicleMap := (vehicleMap r)(vehicleNumber := None)\<rparr>"
  have u: "Unpark r spotID vehicleNumber = (None, r')"
    using vn assms(2) ps v sp oc nm
    by (simp add: Unpark_cases UnparkVehicle_cases r'_def)
  have m': "vehicleMap r' vehicleNumber = None"
    and h': "vehicleHistory r' vehicleNumber = Some spotID"
    by (simp_all add: r'_def s)
  from vn m' h' have sv: "Service_SearchVehicle r' vehicleNumber = Inr (spotID, False)"
    by (simp add: Service_SearchVehicle_def validateVehicleNumber_def Repo_SearchVehicle_def)
  have v': "isValidLocation r' f row col"
    using v by (simp add: r'_def map_update_grid isValidLocation_setSpot)
  have g': "getSpot r' f row col = Some (sp\<lparr>IsOccupied := False, VehicleNumber := []\<rparr>)"
    by (simp add: r'_def map_update_grid getSpot_setSpot [OF wf v])
  have occ: "IsSpotOccupied r' f row col = Inr False"
    using v' g' by (simp add: IsSpotOccupied_def)
  have np: "\<forall>vehicleType current.
              fst (Park r' vehicleType vehicleNumber)
                \<noteq> Inl (ErrVehicleAlreadyParked vehicleNumber current)"
    using Park_not_already_parked [OF m'] by blast
  from u sv ps occ np show ?thesis by blast
qed

lemma serial_Unpark_succeeds_example:
  "reachable smallLotParked \<and> vehicleMap smallLotParked ''BC1'' = Some ''0-0-0'' \<and>
   (\<exists>r' f row col.
      Unpark smallLotParked ''0-0-0'' ''BC1'' = (None, r') \<and>
      Service_SearchVehicle r' ''BC1'' = Inr (''0-0-0'', False) \<and>
      parseSpotID smallLotParked ''0-0-0'' = Inr (f, row, col) \<and>
      IsSpotOccupied r' f row col = Inr False \<and>
      (\<forall>vehicleType current.
         fst (Park r' vehicleType ''BC1'') \<noteq> Inl (ErrVehicleAlreadyParked ''BC1'' current)))"
proof -
  have m: "vehicleMap smallLotParked ''BC1'' = Some ''0-0-0''"
    by (simp add: smallLotParked_def)
  note t = serial_Unpark_succeeds [OF smallLotParked_reachable m]
  from smallLotParked_reachable m t show ?thesis by blast
qed

section \<open>Parsing a spot identifier\<close>

lemma spaceRunes_shape:
  assumes "w \<in> set spaceRunes"
  shows "(\<exists>x. w = [x] \<and> x \<in> set [CHR 0x09, CHR 0x0B, CHR 0x0C, CHR 0x0D, CHR 0x20]) \<or>
         (\<exists>y. w = [CHR 0xC2, y]) \<or>
         (\<exists>x y z. w = [x, y, z] \<and> x \<in> set [CHR 0xE1, CHR 0xE2, CHR 0xE3])"
  using assms unfolding spaceRunes_def by (elim set_ConsD [elim_format] disjE) simp_all

lemma spaceWidth_rune:
  assumes "w \<in> set spaceRunes"
  shows "spaceWidth (w @ t) = length w"
proof -
  consider (one) x where "w = [x]"
    | (two) y where "w = [CHR 0xC2, y]"
    | (three) x y z where "w = [x, y, z]" "x \<in> set [CHR 0xE1, CHR 0xE2, CHR 0xE3]"
    using spaceRunes_shape [OF assms] by blast
  then show ?thesis
  proof cases
    case one
    with assms show ?thesis by (simp add: spaceWidth_def)
  next
    case two
    have "[CHR 0xC2] \<notin> set spaceRunes"
      using spaceRunes_shape [of "[CHR 0xC2]"] by auto
    with assms two show ?thesis by (simp add: spaceWidth_def numeral_2_eq_2)
  next
    case three
    have "[x] \<notin> set spaceRunes"
      using spaceRunes_shape [of "[x]"] three(2) by auto
    moreover have "[x, y] \<notin> set spaceRunes"
      using spaceRunes_shape [of "[x, y]"] three(2) by auto
    ultimately show ?thesis
      using assms three(1) by (simp add: spaceWidth_def numeral_2_eq_2 numeral_3_eq_3)
  qed
qed

lemma spaceWidth_split:
  assumes "0 < spaceWidth s"
  shows "take (spaceWidth s) s \<in> set spaceRunes"
  using assms by (simp add: spaceWidth_def split: if_splits)

lemma blanks_no_newline:
  assumes "blanks b" "isDigit c \<or> c = CHR ''+'' \<or> c = CHR ''-''"
  shows "\<exists>d ds. b @ c # cs = d # ds \<and> d \<noteq> CHR 0x0A"
  using assms(1)
proof (cases rule: blanks.cases)
  case none
  with assms(2) show ?thesis by (auto simp: isDigit_def)
next
  case (more w b')
  from spaceRunes_first [OF more(2)] more(1) show ?thesis
    by (cases w) auto
qed

lemma SkipSpace_blanks:
  assumes "blanks b" "isDigit c \<or> c = CHR ''+'' \<or> c = CHR ''-''"
  shows "SkipSpace (b @ c # cs) = Some (c # cs)"
  using assms
proof (induction rule: blanks.induct)
  case none
  have "c \<noteq> CHR 0x0D \<and> c \<noteq> CHR 0x0A" using none by (auto simp: isDigit_def)
  with spaceWidth_token [OF none, of cs] show ?case
    by (simp add: SkipSpace.simps)
next
  case (more w b)
  from spaceRunes_first [OF more(1)] obtain x xs where w: "w = x # xs" and x: "x \<noteq> CHR 0x0A"
    by (cases w) auto
  let ?tl = "xs @ b @ c # cs"
  have wd: "spaceWidth (x # ?tl) = Suc (length xs)"
    using spaceWidth_rune [OF more(1), of "b @ c # cs"] w by simp
  from blanks_no_newline [OF more(2) more(4), of cs]
  obtain d ds where d: "b @ c # cs = d # ds" "d \<noteq> CHR 0x0A" by blast
  have cr: "\<not> (x = CHR 0x0D \<and> (case ?tl of [] \<Rightarrow> False | d # _ \<Rightarrow> d = CHR 0x0A))"
  proof
    assume a: "x = CHR 0x0D \<and> (case ?tl of [] \<Rightarrow> False | d # _ \<Rightarrow> d = CHR 0x0A)"
    with spaceRunes_shape [OF more(1)] w have "xs = []" by auto
    with a d show False by simp
  qed
  from cr have c1: "(x = CHR 0x0D \<and> (case ?tl of [] \<Rightarrow> False | d # _ \<Rightarrow> d = CHR 0x0A)) = False"
    by blast
  have "SkipSpace (x # ?tl) = SkipSpace (drop (Suc (length xs)) (x # ?tl))"
    unfolding SkipSpace.simps(2) [of x ?tl] c1 using x wd by simp
  also have "drop (Suc (length xs)) (x # ?tl) = b @ c # cs"
    by simp
  finally show ?case using more.IH [OF more(4)] w by simp
qed

lemma SkipSpace_Some:
  "SkipSpace s = Some t \<Longrightarrow> \<exists>b. blanks b \<and> s = b @ t"
proof (induction s rule: SkipSpace.induct)
  case 1
  then show ?case by (auto simp: SkipSpace.simps intro: blanks.none)
next
  case (2 c cs)
  note eq = SkipSpace.simps(2) [of c cs]
  show ?case
  proof (cases "c = CHR 0x0D \<and> (case cs of [] \<Rightarrow> False | d # _ \<Rightarrow> d = CHR 0x0A)")
    case True
    with "2.prems" eq have "SkipSpace cs = Some t" by simp
    from "2.IH"(1) [OF True this] obtain b where b: "blanks b" "cs = b @ t" by blast
    have "[CHR 0x0D] \<in> set spaceRunes" by (simp add: spaceRunes_def)
    from blanks.more [OF this b(1)] b(2) True show ?thesis by auto
  next
    case n1: False
    show ?thesis
    proof (cases "c = CHR 0x0A")
      case True
      with "2.prems" eq n1 show ?thesis by simp
    next
      case n2: False
      show ?thesis
      proof (cases "0 < spaceWidth (c # cs)")
        case True
        from eq n1 n2 True
        have "SkipSpace (c # cs) = SkipSpace (drop (spaceWidth (c # cs)) (c # cs))"
          by simp
        with "2.prems" have "SkipSpace (drop (spaceWidth (c # cs)) (c # cs)) = Some t"
          by simp
        from "2.IH"(2) [OF n1 n2 True this] obtain b
          where b: "blanks b" "drop (spaceWidth (c # cs)) (c # cs) = b @ t" by blast
        from blanks.more [OF spaceWidth_split [OF True] b(1)]
        have "blanks (take (spaceWidth (c # cs)) (c # cs) @ b)" .
        moreover have "c # cs = (take (spaceWidth (c # cs)) (c # cs) @ b) @ t"
          using b(2) append_take_drop_id [of "spaceWidth (c # cs)" "c # cs"] by simp
        ultimately show ?thesis by blast
      next
        case False
        from eq n1 n2 False have "SkipSpace (c # cs) = Some (c # cs)" by simp
        with "2.prems" have "t = c # cs" by simp
        then show ?thesis by (auto intro: blanks.none)
      qed
    qed
  qed
qed


lemma ParseInt_token:
  assumes "g = [] \<or> g = ''+'' \<or> g = ''-''" "d \<noteq> []" "list_all isDigit d"
  shows "ParseInt (g @ d) = Some i \<longleftrightarrow>
           i = (if g = ''-'' then - int (digitsValue d) else int (digitsValue d)) \<and>
           - (2 ^ 63) \<le> i \<and> i < 2 ^ 63"
proof -
  from assms(2) obtain x xs where d: "d = x # xs" by (cases d) auto
  with assms(3) have x: "isDigit x" by simp
  note ns = isDigit_not_special [OF x]
  from assms(1) consider "g = []" | "g = ''+''" | "g = ''-''" by blast
  then show ?thesis
  proof cases
    case 1
    with d ns assms(3) show ?thesis
      by (auto simp: ParseInt_def Let_def)
  next
    case 2
    with d assms(3) show ?thesis
      by (auto simp: ParseInt_def Let_def)
  next
    case 3
    with d assms(3) show ?thesis
      by (auto simp: ParseInt_def Let_def)
  qed
qed

lemma acceptSign_token:
  assumes "g = [] \<or> g = ''+'' \<or> g = ''-''" "isDigit x"
  shows "acceptSign (g @ x # xs) = (g, x # xs)"
  using assms isDigit_not_special [OF assms(2)]
  by (auto simp: acceptSign_def)

lemma scanInt_field:
  assumes b: "blanks b" and g: "g = [] \<or> g = ''+'' \<or> g = ''-''"
    and d: "d \<noteq> []" "list_all isDigit d" and rest: "noDigitAhead rest"
  shows "scanInt (b @ g @ d @ rest) =
           (case ParseInt (g @ d) of None \<Rightarrow> None | Some i \<Rightarrow> Some (i, rest))"
proof -
  from d obtain x xs where dx: "d = x # xs" and x: "isDigit x" by (cases d) auto
  obtain c cs where tok: "g @ d @ rest = c # cs"
    and c: "isDigit c \<or> c = CHR ''+'' \<or> c = CHR ''-''"
    using g dx x by (cases g) auto
  have sk: "SkipSpace (b @ g @ d @ rest) = Some (g @ d @ rest)"
    using SkipSpace_blanks [OF b c, of cs] tok by simp
  have sg: "acceptSign (g @ d @ rest) = (g, d @ rest)"
    using acceptSign_token [OF g x, of "xs @ rest"] dx by simp
  have sn: "scanNumber (d @ rest) = Some (d, rest)"
    by (rule scanNumber_digits [OF d rest])
  from tok have ne: "g @ d @ rest \<noteq> []" by simp
  show ?thesis
    unfolding scanInt_def sk using ne sg sn by (simp split: option.splits)
qed

lemma scanInt_shape:
  assumes "scanInt s = Some (i, rest)"
  shows "\<exists>b g d. s = b @ g @ d @ rest \<and> blanks b \<and> (g = [] \<or> g = ''+'' \<or> g = ''-'') \<and>
           d \<noteq> [] \<and> list_all isDigit d \<and> noDigitAhead rest \<and> ParseInt (g @ d) = Some i"
proof -
  from assms obtain s1 where sk: "SkipSpace s = Some s1"
    by (cases "SkipSpace s") (simp_all add: scanInt_def)
  from SkipSpace_Some [OF sk] obtain b where b: "blanks b" "s = b @ s1" by blast
  obtain g s2 where sg: "acceptSign s1 = (g, s2)" by (cases "acceptSign s1") auto
  then have g: "g = [] \<or> g = ''+'' \<or> g = ''-''" and s1: "s1 = g @ s2"
    by (auto simp: acceptSign_def split: list.splits if_splits)
  from assms sk sg obtain tok s3 where sn: "scanNumber s2 = Some (tok, s3)"
    by (cases "scanNumber s2") (auto simp: scanInt_def split: if_splits)
  then have tok: "tok = takeWhile isDigit s2" "tok \<noteq> []" and s3: "s3 = dropWhile isDigit s2"
    by (auto simp: scanNumber_def Let_def split: if_splits)
  from assms sk sg sn have p: "ParseInt (g @ tok) = Some i" and r: "s3 = rest"
    by (auto simp: scanInt_def split: if_splits option.splits)
  have dg: "list_all isDigit tok"
    using tok(1) by (simp add: list_all_iff) (metis set_takeWhileD)
  have nd: "noDigitAhead rest"
  proof (cases "dropWhile isDigit s2")
    case Nil
    with s3 r show ?thesis by (simp add: noDigitAhead_def)
  next
    case (Cons y ys)
    then have "dropWhile isDigit s2 \<noteq> []" by simp
    from hd_dropWhile [OF this] Cons have "\<not> isDigit y" by simp
    with Cons s3 r show ?thesis by (simp add: noDigitAhead_def)
  qed
  have "s2 = tok @ rest"
    using tok(1) s3 r by simp
  with b s1 g tok(2) dg nd p show ?thesis by blast
qed

lemma scanInt_iff: "scanInt s = Some (i, rest) \<longleftrightarrow> intField s i rest"
proof
  assume "scanInt s = Some (i, rest)"
  from scanInt_shape [OF this] obtain b g d where s: "s = b @ g @ d @ rest" and b: "blanks b"
    and g: "g = [] \<or> g = ''+'' \<or> g = ''-''" and d: "d \<noteq> []" "list_all isDigit d"
    and nd: "noDigitAhead rest" and p: "ParseInt (g @ d) = Some i"
    by blast
  from p ParseInt_token [OF g d, of i] g d have "intToken (g @ d) i"
    unfolding intToken_def by blast
  with s b nd show "intField s i rest"
    unfolding intField_def by (intro exI [of _ b] exI [of _ "g @ d"]) simp
next
  assume "intField s i rest"
  then obtain b t where s: "s = b @ t @ rest" and b: "blanks b" and t: "intToken t i"
    and nd: "noDigitAhead rest"
    unfolding intField_def by blast
  from t obtain g d where tg: "t = g @ d" and g: "g = [] \<or> g = ''+'' \<or> g = ''-''"
    and d: "d \<noteq> []" "list_all isDigit d"
    and i: "i = (if g = ''-'' then - int (digitsValue d) else int (digitsValue d))"
           "- (2 ^ 63) \<le> i" "i < 2 ^ 63"
    unfolding intToken_def by blast
  from ParseInt_token [OF g d, of i] i have "ParseInt (g @ d) = Some i" by blast
  with scanInt_field [OF b g d nd] s tg show "scanInt s = Some (i, rest)" by simp
qed

lemma matchLiteral_Some: "matchLiteral c s = Some t \<longleftrightarrow> s = c # t"
  by (auto simp: matchLiteral_def split: list.splits)

lemma Sscanf_iff: "Sscanf_d_d_d s = Some (a, b, c) \<longleftrightarrow> beginsWithPattern s a b c"
proof
  assume r: "Sscanf_d_d_d s = Some (a, b, c)"
  then obtain a' t1 where 1: "scanInt s = Some (a', t1)"
    by (cases "scanInt s") (auto simp: Sscanf_d_d_d_def)
  with r obtain s1 where m1: "matchLiteral CHR ''-'' t1 = Some s1"
    by (cases "matchLiteral CHR ''-'' t1") (auto simp: Sscanf_d_d_d_def)
  with r 1 obtain b' t2 where 2: "scanInt s1 = Some (b', t2)"
    by (cases "scanInt s1") (auto simp: Sscanf_d_d_d_def)
  with r 1 m1 obtain s2 where m2: "matchLiteral CHR ''-'' t2 = Some s2"
    by (cases "matchLiteral CHR ''-'' t2") (auto simp: Sscanf_d_d_d_def)
  with r 1 m1 2 obtain c' rest where 3: "scanInt s2 = Some (c', rest)"
    by (cases "scanInt s2") (auto simp: Sscanf_d_d_d_def)
  with r 1 m1 2 m2 have eq: "a' = a" "b' = b" "c' = c"
    by (simp_all add: Sscanf_d_d_d_def)
  from m1 m2 have t: "t1 = CHR ''-'' # s1" "t2 = CHR ''-'' # s2"
    by (simp_all add: matchLiteral_Some)
  from 1 2 3 eq t have "intField s a (CHR ''-'' # s1)" "intField s1 b (CHR ''-'' # s2)"
    "intField s2 c rest"
    by (simp_all add: scanInt_iff [symmetric])
  then show "beginsWithPattern s a b c"
    unfolding beginsWithPattern_def by blast
next
  assume "beginsWithPattern s a b c"
  then obtain s1 s2 rest where "intField s a (CHR ''-'' # s1)" "intField s1 b (CHR ''-'' # s2)"
    "intField s2 c rest"
    unfolding beginsWithPattern_def by blast
  then have "scanInt s = Some (a, CHR ''-'' # s1)" "scanInt s1 = Some (b, CHR ''-'' # s2)"
    "scanInt s2 = Some (c, rest)"
    by (simp_all add: scanInt_iff)
  then show "Sscanf_d_d_d s = Some (a, b, c)"
    by (simp add: Sscanf_d_d_d_def matchLiteral_def)
qed

lemma parseSpotID_InvalidSpotID_iff:
  "parseSpotID r s = Inl ErrInvalidSpotID \<longleftrightarrow> \<not> (\<exists>a b c. beginsWithPattern s a b c)"
proof (cases "Sscanf_d_d_d s")
  case None
  then have "\<not> beginsWithPattern s a b c" for a b c
    by (simp add: Sscanf_iff [symmetric])
  with None show ?thesis by (simp add: parseSpotID_def)
next
  case (Some t)
  obtain a b c where t: "t = (a, b, c)" by (cases t) auto
  with Some have "beginsWithPattern s a b c" by (simp add: Sscanf_iff [symmetric])
  with Some t show ?thesis by (auto simp: parseSpotID_def)
qed

lemma parseSpotID_beginsWithPattern:
  "beginsWithPattern s a b c \<Longrightarrow>
     parseSpotID r s = (if isValidLocation r a b c then Inr (a, b, c) else Inl ErrInvalidLocation)"
  by (simp add: Sscanf_iff [symmetric] parseSpotID_def)


lemma exactPattern_digits:
  assumes "d1 \<noteq> []" "list_all isDigit d1" "d2 \<noteq> []" "list_all isDigit d2"
    and "d3 \<noteq> []" "list_all isDigit d3"
  shows "exactPattern (d1 @ ''-'' @ d2 @ ''-'' @ d3)"
proof -
  have 1: "takeWhile isDigit (d1 @ (CHR ''-'' # d2 @ CHR ''-'' # d3)) = d1 \<and>
           dropWhile isDigit (d1 @ (CHR ''-'' # d2 @ CHR ''-'' # d3)) = CHR ''-'' # d2 @ CHR ''-'' # d3"
    by (rule takeWhile_digits [OF assms(2) noDigitAhead_dash])
  have 2: "takeWhile isDigit (d2 @ (CHR ''-'' # d3)) = d2 \<and>
           dropWhile isDigit (d2 @ (CHR ''-'' # d3)) = CHR ''-'' # d3"
    by (rule takeWhile_digits [OF assms(4) noDigitAhead_dash])
  from 1 2 assms show ?thesis
    by (simp add: exactPattern_def)
qed

text \<open>
  Claim C6, as amended. \<open>parseSpotID\<close> scans the pattern at the start of the
  string and does not look at what follows the third integer. It fails with
  \<open>InvalidSpotID\<close> exactly when the string does not begin with three integer
  fields separated by hyphens, a field being optional blanks, an optional sign
  and decimal digits of a 64-bit value. When the string begins so, the result
  is the three integers if they are in bounds and \<open>InvalidLocation\<close> if they
  are not. Every string of the exact pattern whose three numbers are below
  \<open>2^63\<close> begins so, with those numbers, also when text that does not start
  with a digit follows it. The statement is for strings of less than \<open>2^30\<close>
  bytes: the scanner of the library reads no more than \<open>2^30\<close> runes, a limit
  that shorter strings cannot reach and that the model does not have.
\<close>

theorem parseSpotID_scans_prefix:
  assumes "length s < 2 ^ 30"
  shows "(parseSpotID r s = Inl ErrInvalidSpotID \<longleftrightarrow>
            \<not> (\<exists>a b c. beginsWithPattern s a b c)) \<and>
         (beginsWithPattern s a b c \<longrightarrow>
            parseSpotID r s =
              (if isValidLocation r a b c then Inr (a, b, c) else Inl ErrInvalidLocation)) \<and>
         (s = d1 @ ''-'' @ d2 @ ''-'' @ d3 @ rest \<and>
          d1 \<noteq> [] \<and> list_all isDigit d1 \<and> digitsValue d1 < 2 ^ 63 \<and>
          d2 \<noteq> [] \<and> list_all isDigit d2 \<and> digitsValue d2 < 2 ^ 63 \<and>
          d3 \<noteq> [] \<and> list_all isDigit d3 \<and> digitsValue d3 < 2 ^ 63 \<and> noDigitAhead rest \<longrightarrow>
            exactPattern (d1 @ ''-'' @ d2 @ ''-'' @ d3) \<and>
            beginsWithPattern s
              (int (digitsValue d1)) (int (digitsValue d2)) (int (digitsValue d3)))"
proof (intro conjI impI)
  show "parseSpotID r s = Inl ErrInvalidSpotID \<longleftrightarrow> \<not> (\<exists>a b c. beginsWithPattern s a b c)"
    by (rule parseSpotID_InvalidSpotID_iff)
next
  assume "beginsWithPattern s a b c"
  then show "parseSpotID r s =
        (if isValidLocation r a b c then Inr (a, b, c) else Inl ErrInvalidLocation)"
    by (rule parseSpotID_beginsWithPattern)
next
  assume h: "s = d1 @ ''-'' @ d2 @ ''-'' @ d3 @ rest \<and>
    d1 \<noteq> [] \<and> list_all isDigit d1 \<and> digitsValue d1 < 2 ^ 63 \<and>
    d2 \<noteq> [] \<and> list_all isDigit d2 \<and> digitsValue d2 < 2 ^ 63 \<and>
    d3 \<noteq> [] \<and> list_all isDigit d3 \<and> digitsValue d3 < 2 ^ 63 \<and> noDigitAhead rest"
  then show "exactPattern (d1 @ ''-'' @ d2 @ ''-'' @ d3)"
    by (intro exactPattern_digits) simp_all
next
  assume h: "s = d1 @ ''-'' @ d2 @ ''-'' @ d3 @ rest \<and>
    d1 \<noteq> [] \<and> list_all isDigit d1 \<and> digitsValue d1 < 2 ^ 63 \<and>
    d2 \<noteq> [] \<and> list_all isDigit d2 \<and> digitsValue d2 < 2 ^ 63 \<and>
    d3 \<noteq> [] \<and> list_all isDigit d3 \<and> digitsValue d3 < 2 ^ 63 \<and> noDigitAhead rest"
  then have "Sscanf_d_d_d (d1 @ ''-'' @ d2 @ ''-'' @ d3 @ rest) =
          Some (int (digitsValue d1), int (digitsValue d2), int (digitsValue d3))"
    by (intro Sscanf_digits) simp_all
  with h show "beginsWithPattern s
        (int (digitsValue d1)) (int (digitsValue d2)) (int (digitsValue d3))"
    by (simp add: Sscanf_iff)
qed

theorem parseSpotID_scans_prefix_witness:
  "parseSpotID smallLot [] = Inl ErrInvalidSpotID \<and>
   \<not> (\<exists>a b c. beginsWithPattern [] a b c) \<and>
   parseSpotID smallLot ''0-0'' = Inl ErrInvalidSpotID \<and>
   \<not> (\<exists>a b c. beginsWithPattern ''0-0'' a b c) \<and>
   parseSpotID smallLot ''x-0-0'' = Inl ErrInvalidSpotID \<and>
   \<not> (\<exists>a b c. beginsWithPattern ''x-0-0'' a b c) \<and>
   exactPattern ''0-0-1'' \<and>
   beginsWithPattern ''0-0-1 and more'' 0 0 1 \<and>
   parseSpotID smallLot ''0-0-1 and more'' = Inr (0, 0, 1) \<and>
   beginsWithPattern ''0-7-1'' 0 7 1 \<and>
   parseSpotID smallLot ''0-7-1'' = Inl ErrInvalidLocation"
proof -
  have l: "length ([] :: string) < 2 ^ 30" "length ''0-0'' < 2 ^ 30" "length ''x-0-0'' < 2 ^ 30"
    "length ''0-0-1 and more'' < 2 ^ 30" "length ''0-7-1'' < 2 ^ 30"
    by simp_all
  have e1: "parseSpotID smallLot [] = Inl ErrInvalidSpotID"
    and e2: "parseSpotID smallLot ''0-0'' = Inl ErrInvalidSpotID"
    and e3: "parseSpotID smallLot ''x-0-0'' = Inl ErrInvalidSpotID"
    by (simp_all add: parseSpotID_def scan_defs Let_def)
  from e1 parseSpotID_scans_prefix [OF l(1), of smallLot]
  have n1: "\<not> (\<exists>a b c. beginsWithPattern [] a b c)" by blast
  from e2 parseSpotID_scans_prefix [OF l(2), of smallLot]
  have n2: "\<not> (\<exists>a b c. beginsWithPattern ''0-0'' a b c)" by blast
  from e3 parseSpotID_scans_prefix [OF l(3), of smallLot]
  have n3: "\<not> (\<exists>a b c. beginsWithPattern ''x-0-0'' a b c)" by blast
  have d: "''0'' \<noteq> [] \<and> list_all isDigit ''0'' \<and> digitsValue ''0'' < 2 ^ 63"
    "''1'' \<noteq> [] \<and> list_all isDigit ''1'' \<and> digitsValue ''1'' < 2 ^ 63"
    "''7'' \<noteq> [] \<and> list_all isDigit ''7'' \<and> digitsValue ''7'' < 2 ^ 63"
    by (simp_all add: isDigit_def digitsValue_def digitVal_def)
  have v: "digitsValue ''0'' = 0" "digitsValue ''1'' = 1" "digitsValue ''7'' = 7"
    by (simp_all add: digitsValue_def digitVal_def)
  have n: "noDigitAhead []" "noDigitAhead '' and more''"
    by (simp_all add: noDigitAhead_def isDigit_def)
  have ok: "isValidLocation smallLot 0 0 1" and bad: "\<not> isValidLocation smallLot 0 7 1"
    by (simp_all add: isValidLocation_def smallLot_def)
  from parseSpotID_scans_prefix [OF l(4), where ?d1.0 = "''0''" and ?d2.0 = "''0''"
      and ?d3.0 = "''1''" and rest = "'' and more''"] d n v
  have x: "exactPattern ''0-0-1''" and b1: "beginsWithPattern ''0-0-1 and more'' 0 0 1"
    by simp_all
  from parseSpotID_scans_prefix [OF l(5), where ?d1.0 = "''0''" and ?d2.0 = "''7''"
      and ?d3.0 = "''1''" and rest = "[]"] d n v
  have b2: "beginsWithPattern ''0-7-1'' 0 7 1"
    by simp
  from parseSpotID_scans_prefix [OF l(4), of smallLot 0 0 1] b1 ok
  have p1: "parseSpotID smallLot ''0-0-1 and more'' = Inr (0, 0, 1)" by simp
  from parseSpotID_scans_prefix [OF l(5), of smallLot 0 7 1] b2 bad
  have p2: "parseSpotID smallLot ''0-7-1'' = Inl ErrInvalidLocation" by simp
  from e1 n1 e2 n2 e3 n3 x b1 p1 b2 p2 show ?thesis by blast
qed

text \<open>
  Blanks of more than one byte are skipped like the others: a no-break space
  (U+00A0) before the first number, a sign and a blank before the others.
\<close>

lemma parseSpotID_blanks_and_signs:
  "parseSpotID smallLot (CHR 0xC2 # CHR 0xA0 # ''0-+0- 1'') = Inr (0, 0, 1)"
  by (simp add: parseSpotID_def scan_defs Let_def isValidLocation_def smallLot_def)

text \<open>
  Claim C6 as it is stated fails: the string \<open>0-0-0x\<close> does not match the
  exact pattern, and \<open>parseSpotID\<close> does not fail with \<open>InvalidSpotID\<close> on it
  but returns the coordinates \<open>(0, 0, 0)\<close>.
\<close>

theorem parseSpotID_not_strict:
  "\<not> exactPattern ''0-0-0x'' \<and> parseSpotID smallLot ''0-0-0x'' = Inr (0, 0, 0)"
  by (simp add: exactPattern_def parseSpotID_def scan_defs isValidLocation_def smallLot_def)


text \<open>
  A number that does not fit 64 bits is a scan failure, although the string has
  the exact pattern: \<open>strconv.ParseInt\<close> reports a range error.
\<close>

lemma parseSpotID_out_of_range:
  "exactPattern ''9223372036854775808-0-0'' \<and>
   parseSpotID smallLot ''9223372036854775808-0-0'' = Inl ErrInvalidSpotID"
  by (simp add: exactPattern_def parseSpotID_def scan_defs)

section \<open>Two goroutines in \<open>Park\<close>\<close>

text \<open>
  Run alone, the three steps of a goroutine are the call of \<open>Park\<close>: the step
  model adds nothing to the function but the points between its repository
  calls.
\<close>

lemma parkAlone_Park:
  "parkAlone r vt vn = (Returned (fst (Park r vt vn)), snd (Park r vt vn))"
  by (simp add: parkAlone_def parkStep_def Park_def validateVehicleNumber_def
      IsVehicleParked_def split: option.splits sum.splits prod.splits)

text \<open>
  Claim C5. The claim says that of two concurrent calls of \<open>Park\<close> with the same
  vehicle number at most one succeeds, because the check, the search and the
  occupation run under one exclusive lock. In the code each of the three
  repository calls takes and releases the lock by itself. On the small lot,
  when both goroutines have made their call of \<open>IsVehicleParked\<close> before either
  goes on, both calls of \<open>Park\<close> for \<open>BC1\<close> succeed: the first returns spot
  \<open>0-0-0\<close>, the second spot \<open>0-0-1\<close>, both spots end up occupied by \<open>BC1\<close>, and the
  current map keeps the second spot only.
\<close>

theorem concurrent_Park_both_succeed:
  "runTwoParks Bicycle ''BC1'' [True, False, True, True, False, False]
     (AtIsVehicleParked, AtIsVehicleParked, smallLot) =
   (Returned (Inr ''0-0-0''), Returned (Inr ''0-0-1''),
    \<lparr>floors = 1, rows = 1, columns = 2,
     spots = [[[bicycleSpot 0 True ''BC1'', bicycleSpot 1 True ''BC1'']]], gates = 1,
     vehicleMap = [''BC1'' \<mapsto> ''0-0-1''], vehicleHistory = Map.empty\<rparr>)"
proof -
  let ?r1 = smallLotParked
  let ?r2 = "\<lparr>floors = 1, rows = 1, columns = 2,
     spots = [[[bicycleSpot 0 True ''BC1'', bicycleSpot 1 True ''BC1'']]], gates = 1,
     vehicleMap = [''BC1'' \<mapsto> ''0-0-1''], vehicleHistory = Map.empty\<rparr>"
  have c0: "parkStep smallLot Bicycle ''BC1'' AtIsVehicleParked = (AtFindAvailableSpot, smallLot)"
    by (simp add: parkStep_def validateVehicleType_def validateVehicleNumber_def
        IsVehicleParked_def smallLot_def)
  have f0: "parkStep smallLot Bicycle ''BC1'' AtFindAvailableSpot = (AtParkVehicle ''0-0-0'', smallLot)"
    using find_small by (simp add: parkStep_def Bicycle_def)
  have p0: "parkStep smallLot Bicycle ''BC1'' (AtParkVehicle ''0-0-0'') =
              (Returned (Inr ''0-0-0''), ?r1)"
    by (simp add: parkStep_def ParkVehicle_def parseSpotID_def scan_defs eval_defs)
  have fa1: "FindAvailableSpot ?r1 ''Bicycle'' = Inr ''0-0-1''"
    by (simp add: FindAvailableSpot_def findFloor.simps findRow.simps findCol.simps eval_defs
        available_def fmt_defs)
  have f1: "parkStep ?r1 Bicycle ''BC1'' AtFindAvailableSpot = (AtParkVehicle ''0-0-1'', ?r1)"
    using fa1 by (simp add: parkStep_def Bicycle_def)
  have p1: "parkStep ?r1 Bicycle ''BC1'' (AtParkVehicle ''0-0-1'') =
              (Returned (Inr ''0-0-1''), ?r2)"
    by (simp add: parkStep_def ParkVehicle_def parseSpotID_def scan_defs eval_defs)
  show ?thesis
    by (simp add: c0 f0 p0 f1 p1)
qed


text \<open>
  When the second goroutine starts after the first has returned, it is
  rejected, as in the sequential case.
\<close>

lemma consecutive_Park_second_rejected:
  "runTwoParks Bicycle ''BC1'' [True, True, True, False, False, False]
     (AtIsVehicleParked, AtIsVehicleParked, smallLot) =
   (Returned (Inr ''0-0-0''), Returned (Inl (ErrVehicleAlreadyParked ''BC1'' ''0-0-0'')),
    smallLotParked)"
proof -
  have c0: "parkStep smallLot Bicycle ''BC1'' AtIsVehicleParked = (AtFindAvailableSpot, smallLot)"
    by (simp add: parkStep_def validateVehicleType_def validateVehicleNumber_def
        IsVehicleParked_def smallLot_def)
  have f0: "parkStep smallLot Bicycle ''BC1'' AtFindAvailableSpot = (AtParkVehicle ''0-0-0'', smallLot)"
    using find_small by (simp add: parkStep_def Bicycle_def)
  have p0: "parkStep smallLot Bicycle ''BC1'' (AtParkVehicle ''0-0-0'') =
              (Returned (Inr ''0-0-0''), smallLotParked)"
    by (simp add: parkStep_def ParkVehicle_def parseSpotID_def scan_defs eval_defs)
  have c1: "parkStep smallLotParked Bicycle ''BC1'' AtIsVehicleParked =
              (Returned (Inl (ErrVehicleAlreadyParked ''BC1'' ''0-0-0'')), smallLotParked)"
    by (simp add: parkStep_def validateVehicleType_def validateVehicleNumber_def
        IsVehicleParked_def smallLotParked_def)
  have d: "parkStep smallLotParked Bicycle ''BC1'' (Returned res) = (Returned res, smallLotParked)"
    for res
    by (simp add: parkStep_def)
  show ?thesis
    by (simp add: c0 f0 p0 c1 d)
qed

section \<open>What interleaved calls of \<open>Park\<close> do to the lot\<close>

lemma parkStep_check:
  "vn \<noteq> [] \<Longrightarrow> vehicleMap r vn = None \<Longrightarrow>
     parkStep r Bicycle vn AtIsVehicleParked = (AtFindAvailableSpot, r)"
  by (simp add: parkStep_def validateVehicleType_def validateVehicleNumber_def
      IsVehicleParked_def)

lemma parkStep_find_small:
  "parkStep smallLot Bicycle vn AtFindAvailableSpot = (AtParkVehicle ''0-0-0'', smallLot)"
  using find_small by (simp add: parkStep_def Bicycle_def)

lemma interleaved_same_vehicle:
  "runTwoParks Bicycle ''BC1'' [True, False, True, True, False, False]
     (AtIsVehicleParked, AtIsVehicleParked, smallLot) =
   (Returned (Inr ''0-0-0''), Returned (Inr ''0-0-1''), parkedTwice)"
proof -
  have c0: "parkStep smallLot Bicycle ''BC1'' AtIsVehicleParked = (AtFindAvailableSpot, smallLot)"
    by (rule parkStep_check) (simp_all add: smallLot_def)
  have p0: "parkStep smallLot Bicycle ''BC1'' (AtParkVehicle ''0-0-0'') =
              (Returned (Inr ''0-0-0''), smallLotParked)"
    by (simp add: parkStep_def ParkVehicle_def parseSpotID_def scan_defs eval_defs)
  have fa1: "FindAvailableSpot smallLotParked ''Bicycle'' = Inr ''0-0-1''"
    by (simp add: FindAvailableSpot_def findFloor.simps findRow.simps findCol.simps eval_defs
        available_def fmt_defs)
  have f1: "parkStep smallLotParked Bicycle ''BC1'' AtFindAvailableSpot =
              (AtParkVehicle ''0-0-1'', smallLotParked)"
    using fa1 by (simp add: parkStep_def Bicycle_def)
  have p1: "parkStep smallLotParked Bicycle ''BC1'' (AtParkVehicle ''0-0-1'') =
              (Returned (Inr ''0-0-1''), parkedTwice)"
    by (simp add: parkStep_def ParkVehicle_def parseSpotID_def scan_defs eval_defs
        parkedTwice_def)
  show ?thesis
    by (simp add: c0 parkStep_find_small p0 f1 p1)
qed

lemma interleaved_two_vehicles:
  "runParkPair (Bicycle, ''BC1'') (Bicycle, ''BC2'') [True, False, True, False, True, False]
     (AtIsVehicleParked, AtIsVehicleParked, smallLot) =
   (Returned (Inr ''0-0-0''), Returned (Inr ''0-0-0''), sharedSpot)"
proof -
  have c1: "parkStep smallLot Bicycle ''BC1'' AtIsVehicleParked = (AtFindAvailableSpot, smallLot)"
    and c2: "parkStep smallLot Bicycle ''BC2'' AtIsVehicleParked = (AtFindAvailableSpot, smallLot)"
    by (rule parkStep_check, simp, simp add: smallLot_def)+
  have p1: "parkStep smallLot Bicycle ''BC1'' (AtParkVehicle ''0-0-0'') =
              (Returned (Inr ''0-0-0''), smallLotParked)"
    by (simp add: parkStep_def ParkVehicle_def parseSpotID_def scan_defs eval_defs)
  have p2: "parkStep smallLotParked Bicycle ''BC2'' (AtParkVehicle ''0-0-0'') =
              (Returned (Inr ''0-0-0''), sharedSpot)"
    by (simp add: parkStep_def ParkVehicle_def parseSpotID_def scan_defs eval_defs
        sharedSpot_def fun_upd_twist)
  show ?thesis
    by (simp add: c1 c2 parkStep_find_small p1 p2)
qed

text \<open>
  Claim C9. The claim says that the current map and the grid agree in every
  state the lot reaches through \<open>Park\<close>, \<open>Unpark\<close> and \<open>ConfigureSpot\<close>. They agree
  as long as the calls run one after the other. \<open>Park\<close> is served concurrently
  and takes the lock once for each of its three repository calls, and two
  interleaved calls leave states in which map and grid disagree: after two
  calls for \<open>BC1\<close>, spot \<open>0-0-0\<close> is occupied by \<open>BC1\<close> while the map takes \<open>BC1\<close> to
  \<open>0-0-1\<close>; after a call for \<open>BC1\<close> and one for \<open>BC2\<close>, the map takes both
  vehicles to spot \<open>0-0-0\<close>, which is occupied by \<open>BC2\<close>.
\<close>

theorem interleaved_Park_map_disagrees_with_grid:
  "runTwoParks Bicycle ''BC1'' [True, False, True, True, False, False]
     (AtIsVehicleParked, AtIsVehicleParked, smallLot) =
     (Returned (Inr ''0-0-0''), Returned (Inr ''0-0-1''), parkedTwice) \<and>
   occupantAt parkedTwice 0 0 0 = Some ''BC1'' \<and>
   Sprintf_d_d_d 0 0 0 = ''0-0-0'' \<and>
   vehicleMap parkedTwice ''BC1'' = Some ''0-0-1'' \<and>
   runParkPair (Bicycle, ''BC1'') (Bicycle, ''BC2'') [True, False, True, False, True, False]
     (AtIsVehicleParked, AtIsVehicleParked, smallLot) =
     (Returned (Inr ''0-0-0''), Returned (Inr ''0-0-0''), sharedSpot) \<and>
   vehicleMap sharedSpot ''BC1'' = Some ''0-0-0'' \<and>
   vehicleMap sharedSpot ''BC2'' = Some ''0-0-0'' \<and>
   occupantAt sharedSpot 0 0 0 = Some ''BC2''"
proof -
  have a: "occupantAt parkedTwice 0 0 0 = Some ''BC1''"
    and b: "vehicleMap parkedTwice ''BC1'' = Some ''0-0-1''"
    by (simp_all add: occupantAt_def isValidLocation_def getSpot_def sliceIndex_def
        parkedTwice_def bicycleSpot_def)
  have c: "Sprintf_d_d_d 0 0 0 = ''0-0-0''"
    by (simp add: fmt_defs)
  have d: "vehicleMap sharedSpot ''BC1'' = Some ''0-0-0''"
    and e: "vehicleMap sharedSpot ''BC2'' = Some ''0-0-0''"
    and f: "occupantAt sharedSpot 0 0 0 = Some ''BC2''"
    by (simp_all add: occupantAt_def isValidLocation_def getSpot_def sliceIndex_def
        sharedSpot_def bicycleSpot_def)
  from interleaved_same_vehicle interleaved_two_vehicles a b c d e f show ?thesis
    by (intro conjI)
qed

text \<open>
  Claim C2. The claim says that \<open>Unpark\<close> with the pair of a vehicle and its
  current spot always succeeds. It does as long as the calls run one after the
  other. After interleaved calls of \<open>Park\<close> for \<open>BC1\<close> and for \<open>BC2\<close>, which both
  return spot \<open>0-0-0\<close>, the current map takes \<open>BC1\<close> to \<open>0-0-0\<close>, the spot holds
  \<open>BC2\<close>, and \<open>Unpark\<close> of \<open>BC1\<close> at \<open>0-0-0\<close> fails with \<open>VehicleNotAtSpot\<close> at the
  check of the grid.
\<close>

theorem interleaved_Park_then_Unpark_fails:
  "runParkPair (Bicycle, ''BC1'') (Bicycle, ''BC2'') [True, False, True, False, True, False]
     (AtIsVehicleParked, AtIsVehicleParked, smallLot) =
     (Returned (Inr ''0-0-0''), Returned (Inr ''0-0-0''), sharedSpot) \<and>
   vehicleMap sharedSpot ''BC1'' = Some ''0-0-0'' \<and>
   Unpark sharedSpot ''0-0-0'' ''BC1'' =
     (Some (ErrVehicleNotAtSpotGrid ''BC1'' 0 0 0), sharedSpot)"
proof -
  have m: "vehicleMap sharedSpot ''BC1'' = Some ''0-0-0''"
    by (simp add: sharedSpot_def)
  have p: "parseSpotID sharedSpot ''0-0-0'' = Inr (0, 0, 0)"
    by (simp add: parseSpotID_def scan_defs Let_def isValidLocation_def sharedSpot_def)
  have u: "UnparkVehicle sharedSpot 0 0 0 ''BC1'' =
             (Some (ErrVehicleNotAtSpotGrid ''BC1'' 0 0 0), sharedSpot)"
    by (simp add: UnparkVehicle_cases isValidLocation_def getSpot_def sliceIndex_def
        sharedSpot_def bicycleSpot_def)
  from m p u have "Unpark sharedSpot ''0-0-0'' ''BC1'' =
     (Some (ErrVehicleNotAtSpotGrid ''BC1'' 0 0 0), sharedSpot)"
    by (simp add: Unpark_cases)
  with interleaved_two_vehicles m show ?thesis
    by (intro conjI)
qed

end
